theory Spec2Isabelle
  imports Complex_Main "HOL-Library.AList"
begin

section \<open>The algorithm execution hook \<open>useAlgorithms\<close>\<close>

text \<open>
  The development embeds the execution harness of the calculator: the hook
  \<open>useAlgorithms\<close> with its cache (\<open>cacheRef\<close>), its metrics (\<open>metricsRef\<close>), the
  execution history and the functions \<open>generateCacheKey\<close>, \<open>cleanExpiredCache\<close>,
  \<open>getCachedResult\<close>, \<open>setCachedResult\<close>, \<open>updateMetrics\<close>, \<open>executeAlgorithm\<close>,
  \<open>clearCache\<close>, \<open>getMetrics\<close> and \<open>resetMetrics\<close>.

  Conventions of the embedding.
  \<^item> Mutation of the refs and of the React state is explicit state passing over the
    record \<open>hook\<close>.
  \<^item> Every reading of \<open>Date.now()\<close>, \<open>performance.now()\<close> and \<open>Math.random()\<close> is an
    input of the call, one field of \<open>call_env\<close> per reading site. Durations are exact
    rationals, wall-clock stamps are integers.
  \<^item> A thrown exception is the left summand of the result.
  \<^item> The algorithm modules are opaque: the registry is a parameter that answers
    the property accesses of the executor on \<open>algorithmMap\<close>, for own and for
    inherited names, a property being a function or something else.
    What a call of a function does is a \<open>behaviour\<close>: it returns a value, it throws,
    it hands back a promise, or it never returns.
  \<^item> A call of \<open>executeAlgorithm\<close> that never returns has the outcome \<open>None\<close>; the
    state beside it is the one the hook is left in.
  \<^item> The observers \<open>onComplete\<close> and \<open>onError\<close> are supplied by the caller (the pages of
    this repository only log in them). They are assumed to return normally and not
    to call back into the hook, so calling them changes neither the state nor the
    outcome, and the embedding leaves them out.
  \<^item> The function \<open>executeAlgorithm\<close> is a call that runs from start to end with no
    other call in between, as when each call is awaited before the next starts.
    Overlapping calls are covered by the reachable states (see \<open>reachable\<close>).
  \<^item> The field \<open>invocations\<close> of the state is instrumentation. It counts the calls
    \<open>algorithm(...params)\<close> and is read by no function of the hook.
\<close>

subsection \<open>Values, serialisation and cache keys\<close>

text \<open>
  The values that travel through the hook: numbers (integers here), booleans,
  \<open>null\<close>, arrays, the empty object \<open>{}\<close> (\<open>JObj\<close>), and \<open>JCyclic\<close> for an object that
  \<open>JSON.stringify\<close> rejects (a cyclic structure). \<open>truthy\<close> is the test that \<open>if (v)\<close>
  performs.
\<close>

datatype jsval = JNum int | JBool bool | JNull | JArr "jsval list" | JObj | JCyclic

fun truthy :: "jsval \<Rightarrow> bool" where
  "truthy (JNum n) = (n \<noteq> 0)"
| "truthy (JBool b) = b"
| "truthy JNull = False"
| "truthy (JArr vs) = True"
| "truthy JObj = True"
| "truthy JCyclic = True"

definition digit :: "nat \<Rightarrow> char" where
  "digit d = ''0123456789'' ! d"

fun show_nat :: "nat \<Rightarrow> string" where
  "show_nat n = (if n < 10 then [digit n] else show_nat (n div 10) @ [digit (n mod 10)])"

declare show_nat.simps [simp del]

definition show_int :: "int \<Rightarrow> string" where
  "show_int i = (if i < 0 then ''-'' @ show_nat (nat (- i)) else show_nat (nat i))"

fun join_comma :: "string list \<Rightarrow> string" where
  "join_comma [] = []"
| "join_comma [s] = s"
| "join_comma (s # t # ss) = s @ '','' @ join_comma (t # ss)"

text \<open>\<open>JSON.stringify\<close>: \<open>None\<close> when it throws.\<close>

fun stringify :: "jsval \<Rightarrow> string option" where
  "stringify (JNum n) = Some (show_int n)"
| "stringify (JBool b) = Some (if b then ''true'' else ''false'')"
| "stringify JNull = Some ''null''"
| "stringify JObj = Some ''{}''"
| "stringify JCyclic = None"
| "stringify (JArr vs) =
     (case those (map stringify vs) of
        None \<Rightarrow> None
      | Some ss \<Rightarrow> Some (''['' @ join_comma ss @ '']''))"

text \<open>
  \<open>String(Math.random())\<close>: the random number lies in \<open>[0, 1)\<close>; the environment
  supplies the digits after the point.
\<close>

definition show_random :: "nat \<Rightarrow> string" where
  "show_random r = ''0.'' @ show_nat r"

text \<open>
  \<open>generateCacheKey\<close>: the template \<open>`${algorithm}_${JSON.stringify(params)}`\<close>, and the
  fallback \<open>`${algorithm}_${Date.now()}_${Math.random()}`\<close> when serialisation throws.
\<close>

definition generateCacheKey :: "string \<Rightarrow> jsval list \<Rightarrow> int \<Rightarrow> nat \<Rightarrow> string" where
  "generateCacheKey algorithm params dateNow random =
     (case stringify (JArr params) of
        Some j \<Rightarrow> algorithm @ ''_'' @ j
      | None \<Rightarrow> algorithm @ ''_'' @ show_int dateNow @ ''_'' @ show_random random)"

subsection \<open>Configuration, cache, metrics, history, state\<close>

record config =
  enableCache :: bool
  cacheTTL :: int
  enableMetrics :: bool
  maxCacheSize :: nat

definition default_config :: config where
  "default_config =
     \<lparr>enableCache = True, cacheTTL = 30 * 60 * 1000, enableMetrics = True, maxCacheSize = 100\<rparr>"

record cache_entry =
  result :: jsval
  timestamp :: int
  expires :: int

record alg_stats =
  executions :: nat
  totalTime :: rat
  averageTime :: rat
  errors :: nat

record metrics_t =
  totalExecutions :: nat
  cacheHits :: nat
  cacheMisses :: nat
  averageExecutionTime :: rat
  algorithmStats :: "string \<rightharpoonup> alg_stats"

datatype js_error =
    CategoryNotFound string
  | AlgorithmNotFound string
  | TimeoutError
  | Thrown string

text \<open>
  \<open>error.message\<close>. The accented letters of the two Spanish messages are their
  UTF-8 bytes.
\<close>

definition i_acute :: string where
  "i_acute = [char_of (195 :: nat), char_of (173 :: nat)]"

definition o_acute :: string where
  "o_acute = [char_of (195 :: nat), char_of (179 :: nat)]"

fun message :: "js_error \<Rightarrow> string" where
  "message (CategoryNotFound category) =
     ''Categor'' @ i_acute @ ''a de algoritmo no encontrada: '' @ category"
| "message (AlgorithmNotFound algorithmPath) = ''Algoritmo no encontrado: '' @ algorithmPath"
| "message TimeoutError = ''Timeout: El algoritmo tard'' @ o_acute @ '' demasiado''"
| "message (Thrown m) = m"

record history_record =
  h_algorithm :: string
  h_params :: nat
  h_executionTime :: rat
  h_timestamp :: int
  h_success :: bool
  h_error :: "string option"

text \<open>
  The cache is a JavaScript \<open>Map\<close>: keys are unique and iteration follows insertion
  order, so it is an association list. \<open>Map.set\<close> is \<open>AList.update\<close> (an existing
  key keeps its place, a new one goes to the end), \<open>Map.delete\<close> is \<open>AList.delete\<close>,
  \<open>Map.get\<close> is \<open>map_of\<close>.
\<close>

record hook =
  isLoading :: bool
  error :: "js_error option"
  lastResult :: "jsval option"
  executionHistory :: "history_record list"
  cache :: "(string \<times> cache_entry) list"
  metrics :: metrics_t
  invocations :: nat

definition empty_metrics :: metrics_t where
  "empty_metrics =
     \<lparr>totalExecutions = 0, cacheHits = 0, cacheMisses = 0, averageExecutionTime = 0,
      algorithmStats = Map.empty\<rparr>"

definition init :: hook where
  "init =
     \<lparr>isLoading = False, error = None, lastResult = None, executionHistory = [],
      cache = [], metrics = empty_metrics, invocations = 0\<rparr>"

subsection \<open>Registry, options, environment of a call\<close>

text \<open>
  What the call \<open>algorithm(...params)\<close> does. \<open>Returns v\<close>: it returns the value \<open>v\<close>, not a
  promise. \<open>Throws m\<close>: it throws an error with message \<open>m\<close>. \<open>Promise d r\<close>: it returns
  a promise that settles \<open>d\<close> milliseconds after the call (\<open>None\<close>: never), rejected
  with message \<open>m\<close> when \<open>r\<close> is \<open>Inl m\<close>, fulfilled with \<open>v\<close> when \<open>r\<close> is \<open>Inr v\<close>.
  \<open>Diverges\<close>: the call never returns (a loop that does not end).
\<close>

datatype behaviour =
    Returns jsval
  | Throws string
  | Promise "nat option" "string + jsval"
  | Diverges

text \<open>
  The registry is the object \<open>algorithmMap\<close> as the executor reads it, by property
  access: \<open>algorithmMap[category]\<close> and \<open>algorithmCategory[method]\<close>. Property access on
  an object literal also finds what the object inherits (\<open>algorithmMap['constructor']\<close>
  is the function \<open>Object\<close>), so the parameter answers for inherited names as well
  as for own ones; \<open>None\<close> is \<open>undefined\<close>. A category is an object: \<open>callable\<close> says
  whether it is a function and what calling it does, \<open>members\<close> is property access on
  it, a property being a function or some other value.
\<close>

datatype member = Fn "jsval list \<Rightarrow> behaviour" | NotFn

record js_object =
  callable :: "(jsval list \<Rightarrow> behaviour) option"
  members :: "string \<rightharpoonup> member"

type_synonym registry = "string \<rightharpoonup> js_object"

record exec_options =
  skipCache :: bool
  timeout :: nat
  validateInput :: bool
  transform :: "(jsval \<Rightarrow> string + jsval) option"

definition default_options :: exec_options where
  "default_options = \<lparr>skipCache = False, timeout = 30000, validateInput = True, transform = None\<rparr>"

record call_env =
  perfStart :: rat
  dateKey :: int
  randKey :: nat
  dateLookup :: int
  perfDone :: rat
  dateStamp :: int
  dateExpiry :: int
  dateSuccess :: int
  perfCatch :: rat
  dateFailure :: int

subsection \<open>Cache functions\<close>

text \<open>\<open>cleanExpiredCache\<close>: drops every entry with \<open>entry.expires < now\<close>.\<close>

definition cleanExpiredCache :: "int \<Rightarrow> hook \<Rightarrow> hook" where
  "cleanExpiredCache now s = s\<lparr>cache := filter (\<lambda>(key, entry). \<not> expires entry < now) (cache s)\<rparr>"

text \<open>
  \<open>getCachedResult\<close>: the value returned (\<open>JNull\<close> for \<open>null\<close>) and the state after.
\<close>

definition getCachedResult :: "config \<Rightarrow> int \<Rightarrow> string \<Rightarrow> hook \<Rightarrow> jsval \<times> hook" where
  "getCachedResult cfg now cacheKey s =
     (if \<not> enableCache cfg then (JNull, s)
      else case map_of (cache s) cacheKey of
        Some entry \<Rightarrow>
          if expires entry > now
          then (result entry, s\<lparr>metrics := (metrics s)\<lparr>cacheHits := cacheHits (metrics s) + 1\<rparr>\<rparr>)
          else (JNull, s\<lparr>cache := AList.delete cacheKey (cache s),
                          metrics := (metrics s)\<lparr>cacheMisses := cacheMisses (metrics s) + 1\<rparr>\<rparr>)
      | None \<Rightarrow> (JNull, s\<lparr>metrics := (metrics s)\<lparr>cacheMisses := cacheMisses (metrics s) + 1\<rparr>\<rparr>))"

text \<open>
  The eviction loop of \<open>setCachedResult\<close>: the entries sorted by \<open>timestamp\<close> (the sort
  of an array is stable), and \<open>cache.delete(entries[i][0])\<close> for \<open>i\<close> below
  \<open>Math.floor(maxCacheSize * 0.3)\<close>. For a natural number \<open>maxCacheSize\<close> that bound is
  \<open>3 * maxCacheSize div 10\<close>. The loop runs only when \<open>cache.size >= maxCacheSize\<close>, so
  \<open>entries[i]\<close> is defined for every \<open>i\<close> it reaches.
\<close>

definition evict :: "nat \<Rightarrow> (string \<times> cache_entry) list \<Rightarrow> (string \<times> cache_entry) list" where
  "evict maxSize c =
     (let entries = sort_key (\<lambda>e. timestamp (snd e)) c
      in foldl (\<lambda>acc e. AList.delete (fst e) acc) c (take (3 * maxSize div 10) entries))"

definition setCachedResult :: "config \<Rightarrow> int \<Rightarrow> int \<Rightarrow> string \<Rightarrow> jsval \<Rightarrow> hook \<Rightarrow> hook" where
  "setCachedResult cfg stampNow expiryNow cacheKey res s =
     (if \<not> enableCache cfg then s
      else
        let c = (if length (cache s) \<ge> maxCacheSize cfg then evict (maxCacheSize cfg) (cache s)
                 else cache s)
        in s\<lparr>cache := AList.update cacheKey
                 \<lparr>result = res, timestamp = stampNow, expires = expiryNow + cacheTTL cfg\<rparr> c\<rparr>)"

subsection \<open>Metrics\<close>

definition fresh_stats :: alg_stats where
  "fresh_stats = \<lparr>executions = 0, totalTime = 0, averageTime = 0, errors = 0\<rparr>"

text \<open>
  \<open>metrics.algorithmStats\<close> is an object literal too, and the map \<open>algorithmStats\<close> holds
  its own entries. The test \<open>!metrics.algorithmStats[algorithm]\<close> also finds what the
  object inherits from \<open>Object.prototype\<close>: for one of those names no entry is
  created, and the three writes that follow land on the inherited built-in, which
  is no part of the state of the hook. An own entry shadows an inherited name.
\<close>

definition object_prototype_names :: "string list" where
  "object_prototype_names =
     [''constructor'', ''toString'', ''toLocaleString'', ''valueOf'', ''hasOwnProperty'',
      ''isPrototypeOf'', ''propertyIsEnumerable'', ''__proto__'', ''__defineGetter__'',
      ''__defineSetter__'', ''__lookupGetter__'', ''__lookupSetter__'']"

definition inherited :: "string \<Rightarrow> bool" where
  "inherited name = (name \<in> set object_prototype_names)"

definition updateMetrics :: "config \<Rightarrow> string \<Rightarrow> rat \<Rightarrow> bool \<Rightarrow> metrics_t \<Rightarrow> metrics_t" where
  "updateMetrics cfg algorithm executionTime fromCache m =
     (if \<not> enableMetrics cfg then m
      else if fromCache then m
      else
        let n = totalExecutions m + 1;
            total = averageExecutionTime m * (of_nat n - 1);
            algStats = (case algorithmStats m algorithm of None \<Rightarrow> fresh_stats | Some st \<Rightarrow> st);
            algStats' = algStats
              \<lparr>executions := executions algStats + 1,
               totalTime := totalTime algStats + executionTime,
               averageTime := (totalTime algStats + executionTime) / of_nat (executions algStats + 1)\<rparr>
        in m\<lparr>totalExecutions := n,
             averageExecutionTime := (total + executionTime) / of_nat n,
             algorithmStats :=
               (if algorithmStats m algorithm = None \<and> inherited algorithm then algorithmStats m
                else (algorithmStats m)(algorithm \<mapsto> algStats'))\<rparr>)"

subsection \<open>The executor\<close>

text \<open>\<open>algorithmPath.split('.')\<close>.\<close>

fun split_dot :: "string \<Rightarrow> string list" where
  "split_dot [] = [[]]"
| "split_dot (c # cs) =
     (if c = CHR ''.'' then [] # split_dot cs
      else case split_dot cs of w # ws \<Rightarrow> (c # w) # ws | [] \<Rightarrow> [[c]])"

text \<open>
  The lookup of the executor: \<open>[category, method]\<close> are the first two segments of
  the path, \<open>algorithmMap[category]\<close> must be defined, and
  \<open>method ? algorithmCategory[method] : algorithmCategory\<close> must be a function. A path
  without a method, or with an empty one, selects the category itself; that is a
  function for \<open>algorithmMap['constructor']\<close>, and not for the five modules.
\<close>

definition resolve :: "registry \<Rightarrow> string \<Rightarrow> js_error + (jsval list \<Rightarrow> behaviour)" where
  "resolve algorithmMap algorithmPath =
     (let segments = split_dot algorithmPath;
          category = hd segments;
          method = (if length segments \<ge> 2 then segments ! 1 else [])
      in case algorithmMap category of
           None \<Rightarrow> Inl (CategoryNotFound category)
         | Some algorithmCategory \<Rightarrow>
             (if method = []
              then case callable algorithmCategory of
                     Some f \<Rightarrow> Inr f
                   | None \<Rightarrow> Inl (AlgorithmNotFound algorithmPath)
              else case members algorithmCategory method of
                     Some (Fn f) \<Rightarrow> Inr f
                   | _ \<Rightarrow> Inl (AlgorithmNotFound algorithmPath)))"

text \<open>
  The history updater \<open>prev => [...prev.slice(-19), record]\<close>.
\<close>

definition slice_last :: "nat \<Rightarrow> 'a list \<Rightarrow> 'a list" where
  "slice_last k xs = drop (length xs - k) xs"

definition push_history :: "history_record \<Rightarrow> history_record list \<Rightarrow> history_record list" where
  "push_history r prev = slice_last 19 prev @ [r]"

text \<open>
  The rest of the \<open>try\<close> block once the race is won by the algorithm with value
  \<open>res\<close>: transform, metrics, cache, history, \<open>lastResult\<close>.
\<close>

definition complete ::
  "config \<Rightarrow> call_env \<Rightarrow> string \<Rightarrow> jsval list \<Rightarrow> exec_options \<Rightarrow> string \<Rightarrow> jsval \<Rightarrow> hook
    \<Rightarrow> (js_error + jsval) \<times> hook" where
  "complete cfg env algorithmPath params opts cacheKey res s =
     (case (case transform opts of None \<Rightarrow> Inr res | Some t \<Rightarrow> t res) of
        Inl m \<Rightarrow> (Inl (Thrown m), s)
      | Inr finalResult \<Rightarrow>
          let executionTime = perfDone env - perfStart env;
              s1 = s\<lparr>metrics := updateMetrics cfg algorithmPath executionTime False (metrics s)\<rparr>;
              s2 = setCachedResult cfg (dateStamp env) (dateExpiry env) cacheKey finalResult s1;
              s3 = s2\<lparr>executionHistory := push_history
                      \<lparr>h_algorithm = algorithmPath, h_params = length params,
                       h_executionTime = executionTime, h_timestamp = dateSuccess env,
                       h_success = True, h_error = None\<rparr> (executionHistory s2)\<rparr>
          in (Inr finalResult, s3\<lparr>lastResult := Some finalResult\<rparr>))"

text \<open>
  \<open>Promise.race([executionPromise, timeoutPromise])\<close> on a logical clock. The timer of
  \<open>timeoutPromise\<close> is set before the algorithm is called and fires \<open>timeout\<close>
  milliseconds later; a promise that settles earlier wins, with its value or its
  rejection, and one that settles at the deadline, later or never loses to the
  timeout error.
\<close>

definition race :: "nat \<Rightarrow> nat option \<Rightarrow> string + jsval \<Rightarrow> js_error + jsval" where
  "race deadline d r =
     (case d of
        None \<Rightarrow> Inl TimeoutError
      | Some t \<Rightarrow>
          if t < deadline then (case r of Inl m \<Rightarrow> Inl (Thrown m) | Inr v \<Rightarrow> Inr v)
          else Inl TimeoutError)"

text \<open>
  The \<open>try\<close> block: cache check, lookup, the call, the race. The call
  \<open>algorithm(...params)\<close> is made synchronously, before the race is awaited: a value it
  returns wins the race however long the call took, and while it runs no timer can
  fire, so a call that never returns leaves the \<open>try\<close> block without an outcome.
\<close>

definition try_block ::
  "config \<Rightarrow> registry \<Rightarrow> call_env \<Rightarrow> string \<Rightarrow> jsval list \<Rightarrow> exec_options \<Rightarrow> string \<Rightarrow> hook
    \<Rightarrow> (js_error + jsval) option \<times> hook" where
  "try_block cfg algorithmMap env algorithmPath params opts cacheKey s =
     (let (cachedResult, s1) =
            (if \<not> skipCache opts then getCachedResult cfg (dateLookup env) cacheKey s
             else (JNull, s))
      in if \<not> skipCache opts \<and> truthy cachedResult
         then (Some (Inr cachedResult),
               s1\<lparr>lastResult := Some cachedResult, isLoading := False,
                  metrics := updateMetrics cfg algorithmPath 0 True (metrics s1)\<rparr>)
         else case resolve algorithmMap algorithmPath of
           Inl e \<Rightarrow> (Some (Inl e), s1)
         | Inr algorithm \<Rightarrow>
             (let s2 = s1\<lparr>invocations := invocations s1 + 1\<rparr>
              in case algorithm params of
                   Diverges \<Rightarrow> (None, s2)
                 | Throws m \<Rightarrow> (Some (Inl (Thrown m)), s2)
                 | Returns res \<Rightarrow>
                     (case complete cfg env algorithmPath params opts cacheKey res s2 of
                        (r, s3) \<Rightarrow> (Some r, s3))
                 | Promise d r \<Rightarrow>
                     (case race (timeout opts) d r of
                        Inl e \<Rightarrow> (Some (Inl e), s2)
                      | Inr res \<Rightarrow>
                          (case complete cfg env algorithmPath params opts cacheKey res s2 of
                             (r', s3) \<Rightarrow> (Some r', s3)))))"

text \<open>
  The \<open>catch\<close> block. Its guard \<open>algorithmStats[algorithmPath]\<close> is also true for a
  name the object inherits; the increment then lands on the inherited built-in
  and the entries of \<open>algorithmStats\<close> stay as they are, as they do when the guard is
  false.
\<close>

definition catch_block ::
  "config \<Rightarrow> call_env \<Rightarrow> string \<Rightarrow> jsval list \<Rightarrow> js_error \<Rightarrow> hook \<Rightarrow> hook" where
  "catch_block cfg env algorithmPath params e s =
     (let executionTime = perfCatch env - perfStart env;
          m = metrics s;
          m' = (case algorithmStats m algorithmPath of
                  Some st \<Rightarrow>
                    if enableMetrics cfg
                    then m\<lparr>algorithmStats := (algorithmStats m)(algorithmPath \<mapsto> st\<lparr>errors := errors st + 1\<rparr>)\<rparr>
                    else m
                | None \<Rightarrow> m)
      in s\<lparr>metrics := m',
           executionHistory := push_history
             \<lparr>h_algorithm = algorithmPath, h_params = length params,
              h_executionTime = executionTime, h_timestamp = dateFailure env,
              h_success = False, h_error = Some (message e)\<rparr> (executionHistory s),
           error := Some e\<rparr>)"

text \<open>
  \<open>executeAlgorithm\<close>: the \<open>try\<close> block, the \<open>catch\<close> block on an error, \<open>finally\<close>. When
  the call of the algorithm never returns, neither \<open>catch\<close> nor \<open>finally\<close> runs.
\<close>

definition executeAlgorithm ::
  "config \<Rightarrow> registry \<Rightarrow> call_env \<Rightarrow> string \<Rightarrow> jsval list \<Rightarrow> exec_options \<Rightarrow> hook
    \<Rightarrow> (js_error + jsval) option \<times> hook" where
  "executeAlgorithm cfg algorithmMap env algorithmPath params opts s =
     (let s0 = s\<lparr>isLoading := True, error := None\<rparr>;
          cacheKey = generateCacheKey algorithmPath params (dateKey env) (randKey env)
      in case try_block cfg algorithmMap env algorithmPath params opts cacheKey s0 of
           (None, s1) \<Rightarrow> (None, s1)
         | (Some (Inr v), s1) \<Rightarrow> (Some (Inr v), s1\<lparr>isLoading := False\<rparr>)
         | (Some (Inl e), s1) \<Rightarrow>
             (Some (Inl e), (catch_block cfg env algorithmPath params e s1)\<lparr>isLoading := False\<rparr>))"

subsection \<open>Utilities\<close>

definition clearCache :: "hook \<Rightarrow> hook" where
  "clearCache s = s\<lparr>cache := [], metrics := (metrics s)\<lparr>cacheHits := 0, cacheMisses := 0\<rparr>\<rparr>"

definition resetMetrics :: "hook \<Rightarrow> hook" where
  "resetMetrics s = s\<lparr>metrics := empty_metrics, executionHistory := []\<rparr>"

text \<open>
  A JavaScript number as far as the ratio of \<open>getMetrics\<close> needs it, and the division
  of two counters: \<open>0 / 0\<close> is \<open>NaN\<close>, \<open>n / 0\<close> is \<open>Infinity\<close> for positive \<open>n\<close>.
\<close>

datatype jsnum = Num rat | NaN | Infinity

definition js_div :: "nat \<Rightarrow> nat \<Rightarrow> jsnum" where
  "js_div a b = (if b = 0 then (if a = 0 then NaN else Infinity) else Num (of_nat a / of_nat b))"

record metrics_view =
  v_totalExecutions :: nat
  v_cacheHits :: nat
  v_cacheMisses :: nat
  v_averageExecutionTime :: rat
  v_algorithmStats :: "string \<rightharpoonup> alg_stats"
  cacheSize :: nat
  cacheHitRatio :: jsnum

definition getMetrics :: "int \<Rightarrow> hook \<Rightarrow> metrics_view \<times> hook" where
  "getMetrics now s =
     (let s1 = cleanExpiredCache now s;
          m = metrics s1
      in (\<lparr>v_totalExecutions = totalExecutions m, v_cacheHits = cacheHits m,
           v_cacheMisses = cacheMisses m, v_averageExecutionTime = averageExecutionTime m,
           v_algorithmStats = algorithmStats m,
           cacheSize = length (cache s1),
           cacheHitRatio = (if totalExecutions m > 0
                            then js_div (cacheHits m) (cacheHits m + cacheMisses m)
                            else Num 0)\<rparr>, s1))"

subsection \<open>Sequences of calls\<close>

text \<open>
  A call is served from the cache when the check at the head of the \<open>try\<close> block
  succeeds: the cache is consulted and what it hands back is truthy.
\<close>

definition served_from_cache ::
  "config \<Rightarrow> call_env \<Rightarrow> string \<Rightarrow> jsval list \<Rightarrow> exec_options \<Rightarrow> hook \<Rightarrow> bool" where
  "served_from_cache cfg env algorithmPath params opts s =
     (\<not> skipCache opts \<and>
      truthy (fst (getCachedResult cfg (dateLookup env)
                     (generateCacheKey algorithmPath params (dateKey env) (randKey env)) s)))"

subsection \<open>A small registry and clock for concrete runs\<close>

text \<open>
  The category \<open>cryptography\<close> with four members of its own: one that answers \<open>false\<close>
  (as \<open>isPrime\<close> does on 4); one that answers \<open>2\<close> when called with two arguments (as
  \<open>gcd\<close> does on each of 2, 4, 8 and 10 with 6, the pairs used below) and never
  returns when called with fewer (the second operand of \<open>gcd\<close> is then \<open>NaN\<close>, and
  its loop \<open>while (b !== 0)\<close> does not end); one
  that answers 5 on the arguments 3 and 7 and throws otherwise (as \<open>modularInverse\<close>
  does where no inverse exists); and \<open>rsa\<close>, which is an object and not a function.
  Only the members that the concrete runs below use are listed. The module and
  \<open>algorithmMap\<close> are object literals, so both also answer to \<open>constructor\<close> with the
  function \<open>Object\<close>. Called on an object, \<open>Object\<close> returns that object; called
  without an argument or on \<open>null\<close> it returns a new empty object, and on a number or
  a boolean a wrapper object, which the values of the model do not tell apart from
  other objects.
\<close>

definition object_function :: "jsval list \<Rightarrow> behaviour" where
  "object_function ps =
     (case ps of
        JArr vs # rest \<Rightarrow> Returns (JArr vs)
      | JCyclic # rest \<Rightarrow> Returns JCyclic
      | _ \<Rightarrow> Returns JObj)"

definition demo_registry :: registry where
  "demo_registry =
     [''cryptography'' \<mapsto>
        \<lparr>callable = None,
         members =
           [''isPrime'' \<mapsto> Fn (\<lambda>ps. Returns (JBool False)),
            ''gcd'' \<mapsto> Fn (\<lambda>ps. if length ps < 2 then Diverges else Returns (JNum 2)),
            ''modularInverse'' \<mapsto>
               Fn (\<lambda>ps. if ps = [JNum 3, JNum 7] then Returns (JNum 5)
                        else Throws ''domain message''),
            ''rsa'' \<mapsto> NotFn,
            ''constructor'' \<mapsto> Fn object_function]\<rparr>,
      ''constructor'' \<mapsto> \<lparr>callable = Some object_function, members = Map.empty\<rparr>]"

text \<open>A call that starts at wall-clock time \<open>t\<close> and takes \<open>d\<close> milliseconds.\<close>

definition env_at :: "int \<Rightarrow> rat \<Rightarrow> call_env" where
  "env_at t d =
     \<lparr>perfStart = of_int t, dateKey = t, randKey = 0, dateLookup = t, perfDone = of_int t + d,
      dateStamp = t, dateExpiry = t, dateSuccess = t, perfCatch = of_int t + d, dateFailure = t\<rparr>"

definition after_gcd :: hook where
  "after_gcd =
     snd (executeAlgorithm default_config demo_registry (env_at 1000 3) ''cryptography.gcd''
            [JNum 4, JNum 6] default_options init)"

definition after_uncached_gcd :: hook where
  "after_uncached_gcd =
     snd (executeAlgorithm default_config demo_registry (env_at 1000 3) ''cryptography.gcd''
            [JNum 4, JNum 6] (default_options\<lparr>skipCache := True\<rparr>) init)"

definition after_isPrime :: hook where
  "after_isPrime =
     snd (executeAlgorithm default_config demo_registry (env_at 1000 3) ''cryptography.isPrime''
            [JNum 4] default_options init)"

definition after_inverse :: hook where
  "after_inverse =
     snd (executeAlgorithm default_config demo_registry (env_at 1000 3)
            ''cryptography.modularInverse'' [JNum 3, JNum 7] default_options init)"

definition tiny_config :: config where
  "tiny_config = default_config\<lparr>maxCacheSize := 3\<rparr>"

definition put_at :: "string \<Rightarrow> int \<Rightarrow> hook \<Rightarrow> hook" where
  "put_at k t s = setCachedResult tiny_config t t k (JNum 1) s"

subsection \<open>Resolvable paths and reachable states\<close>

text \<open>
  A path resolves when the lookup of the executor finds a function for it. The
  registry and the configuration are fixed for the life of a hook; the states a
  hook can be in are those reached from the initial one by calls of the functions
  it exports.

  Calls may also overlap (\<open>analyzeGraph\<close> starts three of them under \<open>Promise.all\<close>):
  a call runs up to its \<open>await\<close>, other calls run, and the call resumes later, on
  the success path or in the \<open>catch\<close> block. The last three rules cover the two
  halves separately: the head of a call that reaches the \<open>await\<close> has consulted the
  cache and called a function; a resumption completes a call of a path that
  resolves, or handles its error.
\<close>

definition resolves :: "registry \<Rightarrow> string \<Rightarrow> bool" where
  "resolves algorithmMap algorithmPath =
     (case resolve algorithmMap algorithmPath of Inr f \<Rightarrow> True | Inl e \<Rightarrow> False)"

inductive reachable :: "config \<Rightarrow> registry \<Rightarrow> hook \<Rightarrow> bool" for cfg :: config and reg :: registry where
  reach_init: "reachable cfg reg init"
| reach_execute:
    "reachable cfg reg s \<Longrightarrow> reachable cfg reg (snd (executeAlgorithm cfg reg env p a opts s))"
| reach_getMetrics: "reachable cfg reg s \<Longrightarrow> reachable cfg reg (snd (getMetrics now s))"
| reach_clearCache: "reachable cfg reg s \<Longrightarrow> reachable cfg reg (clearCache s)"
| reach_resetMetrics: "reachable cfg reg s \<Longrightarrow> reachable cfg reg (resetMetrics s)"
| reach_suspend:
    "reachable cfg reg s \<Longrightarrow>
     reachable cfg reg
       ((snd (getCachedResult cfg now k (s\<lparr>isLoading := True, error := None\<rparr>)))
          \<lparr>invocations := invocations s + 1\<rparr>)"
| reach_resume_value:
    "reachable cfg reg s \<Longrightarrow> resolves reg p \<Longrightarrow>
     reachable cfg reg
       ((snd (complete cfg env p a opts (generateCacheKey p a (dateKey env) (randKey env)) v s))
          \<lparr>isLoading := False\<rparr>)"
| reach_resume_error:
    "reachable cfg reg s \<Longrightarrow>
     reachable cfg reg ((catch_block cfg env p a e s)\<lparr>isLoading := False\<rparr>)"

text \<open>
  Every key in the cache was built for a path that resolves, and every path with
  statistics resolves.
\<close>

definition keys_resolve :: "registry \<Rightarrow> hook \<Rightarrow> bool" where
  "keys_resolve reg s =
     ((\<forall>k \<in> fst ` set (cache s). \<exists>p a d r. k = generateCacheKey p a d r \<and> resolves reg p) \<and>
      (\<forall>p \<in> dom (algorithmStats (metrics s)). resolves reg p))"

subsection \<open>Runs\<close>

text \<open>
  A run is a list of calls executed one after the other; it ends at a call that
  never returns, since nothing runs after it. A call is executed when it is not
  served from the cache and returns a value. \<open>fresh_durations\<close> lists, in order, the
  durations of the executed calls. \<open>attempt_records\<close> lists, in order, the history
  record of every call that is not served from the cache: the record of the
  success path when the call returns a value, that of the \<open>catch\<close> block when it
  throws. \<open>attempts\<close> says that every call of the run comes to an end and none is
  served from the cache.
\<close>

record call =
  c_env :: call_env
  c_path :: string
  c_params :: "jsval list"
  c_opts :: exec_options

definition execute_call ::
  "config \<Rightarrow> registry \<Rightarrow> call \<Rightarrow> hook \<Rightarrow> (js_error + jsval) option \<times> hook" where
  "execute_call cfg reg c s = executeAlgorithm cfg reg (c_env c) (c_path c) (c_params c) (c_opts c) s"

definition call_served :: "config \<Rightarrow> call \<Rightarrow> hook \<Rightarrow> bool" where
  "call_served cfg c s = served_from_cache cfg (c_env c) (c_path c) (c_params c) (c_opts c) s"

definition returns :: "config \<Rightarrow> registry \<Rightarrow> call \<Rightarrow> hook \<Rightarrow> bool" where
  "returns cfg reg c s = (fst (execute_call cfg reg c s) \<noteq> None)"

fun run :: "config \<Rightarrow> registry \<Rightarrow> call list \<Rightarrow> hook \<Rightarrow> hook" where
  "run cfg reg [] s = s"
| "run cfg reg (c # cs) s =
     (if returns cfg reg c s then run cfg reg cs (snd (execute_call cfg reg c s))
      else snd (execute_call cfg reg c s))"

definition duration :: "call \<Rightarrow> rat" where
  "duration c = perfDone (c_env c) - perfStart (c_env c)"

definition executed :: "config \<Rightarrow> registry \<Rightarrow> call \<Rightarrow> hook \<Rightarrow> bool" where
  "executed cfg reg c s =
     (\<not> call_served cfg c s \<and>
      (case fst (execute_call cfg reg c s) of Some (Inr v) \<Rightarrow> True | _ \<Rightarrow> False))"


fun attempts :: "config \<Rightarrow> registry \<Rightarrow> call list \<Rightarrow> hook \<Rightarrow> bool" where
  "attempts cfg reg [] s = True"
| "attempts cfg reg (c # cs) s =
     (returns cfg reg c s \<and> \<not> call_served cfg c s \<and>
      attempts cfg reg cs (snd (execute_call cfg reg c s)))"

definition record_of :: "call \<Rightarrow> js_error + jsval \<Rightarrow> history_record" where
  "record_of c r =
     (case r of
        Inr v \<Rightarrow>
          \<lparr>h_algorithm = c_path c, h_params = length (c_params c),
           h_executionTime = perfDone (c_env c) - perfStart (c_env c),
           h_timestamp = dateSuccess (c_env c), h_success = True, h_error = None\<rparr>
      | Inl e \<Rightarrow>
          \<lparr>h_algorithm = c_path c, h_params = length (c_params c),
           h_executionTime = perfCatch (c_env c) - perfStart (c_env c),
           h_timestamp = dateFailure (c_env c), h_success = False, h_error = Some (message e)\<rparr>)"

fun attempt_records :: "config \<Rightarrow> registry \<Rightarrow> call list \<Rightarrow> hook \<Rightarrow> history_record list" where
  "attempt_records cfg reg [] s = []"
| "attempt_records cfg reg (c # cs) s =
     (case fst (execute_call cfg reg c s) of
        None \<Rightarrow> []
      | Some r \<Rightarrow>
          (if call_served cfg c s then [] else [record_of c r])
            @ attempt_records cfg reg cs (snd (execute_call cfg reg c s)))"

subsection \<open>Concrete runs\<close>



definition gcd_call :: "int \<Rightarrow> call" where
  "gcd_call t =
     \<lparr>c_env = env_at t 3, c_path = ''cryptography.gcd'', c_params = [JNum 4, JNum 6],
      c_opts = default_options\<rparr>"

text \<open>The call \<open>execute('cryptography.gcd', [n, 6])\<close>, started at time \<open>1000 + n\<close>.\<close>

definition gcd_of :: "int \<Rightarrow> call" where
  "gcd_of n =
     \<lparr>c_env = env_at (1000 + n) 3, c_path = ''cryptography.gcd'', c_params = [JNum n, JNum 6],
      c_opts = default_options\<rparr>"

definition demo_call :: "nat \<Rightarrow> call" where
  "demo_call i =
     \<lparr>c_env = env_at (1000 + int i) 3,
      c_path = (if even i then ''cryptography.gcd'' else ''nonexistent.thing''),
      c_params = [JNum 4, JNum 6], c_opts = default_options\<lparr>skipCache := True\<rparr>\<rparr>"

fun demo_calls :: "nat \<Rightarrow> call list" where
  "demo_calls 0 = []"
| "demo_calls (Suc n) = demo_calls n @ [demo_call n]"

section \<open>Properties\<close>

text \<open>Unfolding sets for runs on concrete inputs.\<close>

lemmas exec_defs = executeAlgorithm_def try_block_def complete_def catch_block_def
  getCachedResult_def setCachedResult_def updateMetrics_def resolve_def generateCacheKey_def
  push_history_def slice_last_def evict_def served_from_cache_def race_def inherited_def
  object_prototype_names_def
lemmas demo_defs = default_config_def default_options_def init_def empty_metrics_def
  demo_registry_def env_at_def fresh_stats_def tiny_config_def put_at_def
  after_gcd_def after_uncached_gcd_def after_isPrime_def after_inverse_def
  show_int_def show_nat.simps digit_def show_random_def object_function_def
lemmas run_defs = execute_call_def call_served_def duration_def record_of_def executed_def
  returns_def

subsection \<open>The cache key determines the path\<close>


lemma digit_no_us: "d < 10 \<Longrightarrow> digit d \<notin> {CHR ''_'', CHR ''[''}"
proof -
  assume "d < 10"
  then have "d \<in> {0,1,2,3,4,5,6,7,8,9}" by auto
  then show ?thesis by (auto simp: digit_def)
qed

lemma show_nat_chars: "set (show_nat n) \<inter> {CHR ''_'', CHR ''[''} = {}"
proof (induction n rule: show_nat.induct)
  case (1 n)
  show ?case
  proof (cases "n < 10")
    case True
    then show ?thesis using digit_no_us [of n] by (subst show_nat.simps) auto
  next
    case False
    have "n mod 10 < 10" by simp
    from digit_no_us [OF this] 1 [OF False] False show ?thesis
      by (subst show_nat.simps) auto
  qed
qed

lemma show_nat_no_us: "CHR ''_'' \<notin> set (show_nat n)"
  using show_nat_chars [of n] by auto

lemma show_int_no_us: "CHR ''_'' \<notin> set (show_int i)"
  by (simp add: show_int_def show_nat_no_us)

lemma show_random_no_us: "CHR ''_'' \<notin> set (show_random r)"
  by (simp add: show_random_def show_nat_no_us)

lemma join_comma_no_us: "\<forall>s \<in> set ss. CHR ''_'' \<notin> set s \<Longrightarrow> CHR ''_'' \<notin> set (join_comma ss)"
  by (induction ss rule: join_comma.induct) auto

lemma those_SomeD: "those xs = Some ys \<Longrightarrow> set ys \<subseteq> {y. Some y \<in> set xs}"
  by (induction xs arbitrary: ys) (auto split: option.splits)

lemma stringify_no_us: "stringify v = Some s \<Longrightarrow> CHR ''_'' \<notin> set s"
proof (induction v arbitrary: s)
  case (JArr vs)
  from JArr.prems obtain ss where ss: "those (map stringify vs) = Some ss"
    and s: "s = ''['' @ join_comma ss @ '']''"
    by (auto split: option.splits)
  have "\<forall>t \<in> set ss. CHR ''_'' \<notin> set t"
  proof
    fix t assume "t \<in> set ss"
    with those_SomeD [OF ss] obtain v where "v \<in> set vs" "stringify v = Some t"
      by force
    then show "CHR ''_'' \<notin> set t" using JArr.IH by blast
  qed
  then show ?case using s join_comma_no_us by auto
qed (auto simp: show_int_no_us split: if_splits)

lemma stringify_arr_hd: "stringify (JArr vs) = Some s \<Longrightarrow> \<exists>t. s = CHR ''['' # t"
  by (auto split: option.splits)

lemma takeWhile_upto:
  "c \<notin> set zs \<Longrightarrow> takeWhile (\<lambda>x. x \<noteq> c) (zs @ c # ws) = zs"
  by (induction zs) auto

lemma split_at_last:
  assumes "xs @ c # ys = xs' @ c # ys'" and "c \<notin> set ys" and "c \<notin> set ys'"
  shows "xs = xs' \<and> ys = ys'"
proof -
  have "takeWhile (\<lambda>x. x \<noteq> c) (rev (xs @ c # ys)) = rev ys"
    using assms(2) by (simp add: takeWhile_upto)
  moreover have "takeWhile (\<lambda>x. x \<noteq> c) (rev (xs' @ c # ys')) = rev ys'"
    using assms(3) by (simp add: takeWhile_upto)
  ultimately have "ys = ys'" using assms(1) by (metis rev_rev_ident)
  with assms(1) show ?thesis by simp
qed

lemma generateCacheKey_path:
  assumes "generateCacheKey p a d r = generateCacheKey p' a' d' r'"
  shows "p = p'"
proof (cases "stringify (JArr a)")
  case None
  note n1 = this
  show ?thesis
  proof (cases "stringify (JArr a')")
    case None
    with n1 assms have "(p @ CHR ''_'' # show_int d) @ CHR ''_'' # show_random r =
        (p' @ CHR ''_'' # show_int d') @ CHR ''_'' # show_random r'"
      by (simp add: generateCacheKey_def)
    from split_at_last [OF this show_random_no_us show_random_no_us]
    have "p @ CHR ''_'' # show_int d = p' @ CHR ''_'' # show_int d'" by simp
    from split_at_last [OF this show_int_no_us show_int_no_us] show ?thesis by simp
  next
    case (Some j)
    with n1 assms have "(p @ CHR ''_'' # show_int d) @ CHR ''_'' # show_random r = p' @ CHR ''_'' # j"
      by (simp add: generateCacheKey_def)
    from split_at_last [OF this show_random_no_us stringify_no_us [OF Some]]
    have "show_random r = j" by simp
    with stringify_arr_hd [OF Some] show ?thesis by (auto simp: show_random_def)
  qed
next
  case (Some j)
  note s1 = this
  show ?thesis
  proof (cases "stringify (JArr a')")
    case None
    with s1 assms have "p @ CHR ''_'' # j = (p' @ CHR ''_'' # show_int d') @ CHR ''_'' # show_random r'"
      by (simp add: generateCacheKey_def)
    from split_at_last [OF this stringify_no_us [OF s1] show_random_no_us]
    have "j = show_random r'" by simp
    with stringify_arr_hd [OF s1] show ?thesis by (auto simp: show_random_def)
  next
    case (Some j')
    with s1 assms have "p @ CHR ''_'' # j = p' @ CHR ''_'' # j'"
      by (simp add: generateCacheKey_def)
    from split_at_last [OF this stringify_no_us [OF s1] stringify_no_us [OF Some]]
    show ?thesis by simp
  qed
qed

subsection \<open>What a call can add to the cache and to the statistics\<close>

lemma delete_keys: "fst ` set (AList.delete k c) \<subseteq> fst ` set c"
  by (auto simp: AList.delete_eq)

lemma evict_keys: "fst ` set (evict n c) \<subseteq> fst ` set c"
proof -
  have "fst ` set (foldl (\<lambda>acc e. AList.delete (fst e) acc) c xs) \<subseteq> fst ` set c" for xs
  proof (induction xs arbitrary: c)
    case Nil
    show ?case by simp
  next
    case (Cons x xs)
    have "fst ` set (foldl (\<lambda>acc e. AList.delete (fst e) acc) (AList.delete (fst x) c) xs)
            \<subseteq> fst ` set (AList.delete (fst x) c)"
      by (rule Cons.IH)
    with delete_keys [of "fst x" c] show ?case by auto
  qed
  then show ?thesis by (simp add: evict_def)
qed

lemma getCachedResult_keys:
  "fst ` set (cache (snd (getCachedResult cfg now k s))) \<subseteq> fst ` set (cache s)"
  using delete_keys [of k "cache s"]
  by (auto simp: getCachedResult_def split: option.splits)

lemma getCachedResult_stats:
  "algorithmStats (metrics (snd (getCachedResult cfg now k s))) = algorithmStats (metrics s)"
  by (auto simp: getCachedResult_def split: option.splits)

lemma setCachedResult_keys:
  "fst ` set (cache (setCachedResult cfg t1 t2 k v s)) \<subseteq> insert k (fst ` set (cache s))"
  using evict_keys [of "maxCacheSize cfg" "cache s"]
  by (auto simp: setCachedResult_def Let_def AList.dom_update)

lemma setCachedResult_metrics: "metrics (setCachedResult cfg t1 t2 k v s) = metrics s"
  by (simp add: setCachedResult_def Let_def)

lemma updateMetrics_dom:
  "dom (algorithmStats (updateMetrics cfg p t b m)) \<subseteq> insert p (dom (algorithmStats m))"
  by (auto simp: updateMetrics_def Let_def)

lemma complete_keys:
  "fst ` set (cache (snd (complete cfg env p a opts k v s))) \<subseteq> insert k (fst ` set (cache s))"
  using setCachedResult_keys [of cfg "dateStamp env" "dateExpiry env" k _
      "s\<lparr>metrics := updateMetrics cfg p (perfDone env - perfStart env) False (metrics s)\<rparr>"]
  by (auto simp: complete_def Let_def split: sum.splits option.splits)

lemma complete_dom:
  "dom (algorithmStats (metrics (snd (complete cfg env p a opts k v s))))
     \<subseteq> insert p (dom (algorithmStats (metrics s)))"
  using updateMetrics_dom [of cfg p "perfDone env - perfStart env" False "metrics s"]
  by (auto simp: complete_def Let_def setCachedResult_metrics split: sum.splits option.splits)

lemma snd_case_Some [simp]: "snd (case p of (r, x) \<Rightarrow> (Some r, x)) = snd p"
  by (cases p) simp

lemma fst_case_Some [simp]: "fst (case p of (r, x) \<Rightarrow> (Some r, x)) = Some (fst p)"
  by (cases p) simp

lemma try_block_keys:
  "fst ` set (cache (snd (try_block cfg reg env p a opts k s)))
     \<subseteq> (if resolves reg p then insert k (fst ` set (cache s)) else fst ` set (cache s))"
proof -
  obtain cr s1 where g: "(if \<not> skipCache opts then getCachedResult cfg (dateLookup env) k s else (JNull, s)) = (cr, s1)"
    by fastforce
  have k1: "fst ` set (cache s1) \<subseteq> fst ` set (cache s)"
    using g getCachedResult_keys [of cfg "dateLookup env" k s] by (auto split: if_splits)
  show ?thesis
  proof (cases "resolve reg p")
    case (Inl e)
    then show ?thesis using g k1 by (auto simp: try_block_def resolves_def)
  next
    case (Inr f)
    have "fst ` set (cache (snd (complete cfg env p a opts k v (s1\<lparr>invocations := invocations s1 + 1\<rparr>))))
            \<subseteq> insert k (fst ` set (cache s))" for v
      using complete_keys [of cfg env p a opts k v "s1\<lparr>invocations := invocations s1 + 1\<rparr>"] k1
      by auto
    then show ?thesis using g k1 Inr
      by (auto simp: try_block_def resolves_def Let_def split: behaviour.splits sum.splits)
  qed
qed

lemma try_block_dom:
  "dom (algorithmStats (metrics (snd (try_block cfg reg env p a opts k s))))
     \<subseteq> (if resolves reg p then insert p (dom (algorithmStats (metrics s)))
         else dom (algorithmStats (metrics s)))"
proof -
  obtain cr s1 where g: "(if \<not> skipCache opts then getCachedResult cfg (dateLookup env) k s else (JNull, s)) = (cr, s1)"
    by fastforce
  have k1: "algorithmStats (metrics s1) = algorithmStats (metrics s)"
    using g getCachedResult_stats [of cfg "dateLookup env" k s] by (auto split: if_splits)
  show ?thesis
  proof (cases "resolve reg p")
    case (Inl e)
    then show ?thesis using g k1 by (auto simp: try_block_def resolves_def updateMetrics_def)
  next
    case (Inr f)
    have "dom (algorithmStats (metrics (snd (complete cfg env p a opts k v (s1\<lparr>invocations := invocations s1 + 1\<rparr>)))))
            \<subseteq> insert p (dom (algorithmStats (metrics s)))" for v
      using complete_dom [of cfg env p a opts k v "s1\<lparr>invocations := invocations s1 + 1\<rparr>"] k1
      by auto
    then show ?thesis using g k1 Inr
      by (auto simp: try_block_def resolves_def Let_def updateMetrics_def split: behaviour.splits sum.splits)
  qed
qed

lemma catch_block_cache: "cache (catch_block cfg env p a e s) = cache s"
  by (simp add: catch_block_def Let_def)

lemma catch_block_dom:
  "dom (algorithmStats (metrics (catch_block cfg env p a e s))) = dom (algorithmStats (metrics s))"
  by (auto simp: catch_block_def Let_def split: option.splits if_splits)

lemma executeAlgorithm_cache:
  "cache (snd (executeAlgorithm cfg reg env p a opts s)) =
     cache (snd (try_block cfg reg env p a opts (generateCacheKey p a (dateKey env) (randKey env))
        (s\<lparr>isLoading := True, error := None\<rparr>)))"
  by (simp add: executeAlgorithm_def Let_def catch_block_cache split: prod.splits sum.splits option.splits)

lemma executeAlgorithm_stats_dom:
  "dom (algorithmStats (metrics (snd (executeAlgorithm cfg reg env p a opts s)))) =
     dom (algorithmStats (metrics (snd (try_block cfg reg env p a opts
        (generateCacheKey p a (dateKey env) (randKey env)) (s\<lparr>isLoading := True, error := None\<rparr>)))))"
  by (simp add: executeAlgorithm_def Let_def catch_block_dom split: prod.splits sum.splits option.splits)

lemma executeAlgorithm_keys:
  "fst ` set (cache (snd (executeAlgorithm cfg reg env p a opts s)))
     \<subseteq> (if resolves reg p
         then insert (generateCacheKey p a (dateKey env) (randKey env)) (fst ` set (cache s))
         else fst ` set (cache s))"
  using try_block_keys [of cfg reg env p a opts "generateCacheKey p a (dateKey env) (randKey env)"
      "s\<lparr>isLoading := True, error := None\<rparr>"]
  by (auto simp: executeAlgorithm_cache split: if_splits)

lemma executeAlgorithm_dom:
  "dom (algorithmStats (metrics (snd (executeAlgorithm cfg reg env p a opts s))))
     \<subseteq> (if resolves reg p then insert p (dom (algorithmStats (metrics s)))
         else dom (algorithmStats (metrics s)))"
  using try_block_dom [of cfg reg env p a opts "generateCacheKey p a (dateKey env) (randKey env)"
      "s\<lparr>isLoading := True, error := None\<rparr>"]
  by (auto simp: executeAlgorithm_stats_dom split: if_splits)

lemma reachable_keys_resolve: "reachable cfg reg s \<Longrightarrow> keys_resolve reg s"
proof (induction rule: reachable.induct)
  case reach_init
  show ?case by (simp add: keys_resolve_def init_def empty_metrics_def)
next
  case (reach_execute s env p a opts)
  show ?case
    unfolding keys_resolve_def
  proof (intro conjI ballI)
    fix k assume "k \<in> fst ` set (cache (snd (executeAlgorithm cfg reg env p a opts s)))"
    with executeAlgorithm_keys [of cfg reg env p a opts s]
    have "k \<in> fst ` set (cache s) \<or> (resolves reg p \<and> k = generateCacheKey p a (dateKey env) (randKey env))"
      by (auto split: if_splits)
    with reach_execute.IH show "\<exists>p a d r. k = generateCacheKey p a d r \<and> resolves reg p"
      unfolding keys_resolve_def by blast
  next
    fix q assume "q \<in> dom (algorithmStats (metrics (snd (executeAlgorithm cfg reg env p a opts s))))"
    with executeAlgorithm_dom [of cfg reg env p a opts s]
    have "q \<in> dom (algorithmStats (metrics s)) \<or> (resolves reg p \<and> q = p)"
      by (auto split: if_splits)
    with reach_execute.IH show "resolves reg q"
      unfolding keys_resolve_def by blast
  qed
next
  case (reach_getMetrics s now)
  then show ?case
    by (auto simp: keys_resolve_def getMetrics_def cleanExpiredCache_def Let_def)
next
  case (reach_clearCache s)
  then show ?case by (auto simp: keys_resolve_def clearCache_def)
next
  case (reach_resetMetrics s)
  then show ?case by (auto simp: keys_resolve_def resetMetrics_def empty_metrics_def)
next
  case (reach_suspend s now k)
  let ?s0 = "s\<lparr>isLoading := True, error := None\<rparr>"
  let ?s1 = "(snd (getCachedResult cfg now k ?s0))\<lparr>invocations := invocations s + 1\<rparr>"
  have c: "fst ` set (cache ?s1) \<subseteq> fst ` set (cache s)"
    using getCachedResult_keys [of cfg now k ?s0] by simp
  have m: "algorithmStats (metrics ?s1) = algorithmStats (metrics s)"
    using getCachedResult_stats [of cfg now k ?s0] by simp
  show ?case
    unfolding keys_resolve_def
  proof (intro conjI ballI)
    fix k' assume "k' \<in> fst ` set (cache ?s1)"
    with c have "k' \<in> fst ` set (cache s)" by blast
    with reach_suspend.IH show "\<exists>p a d r. k' = generateCacheKey p a d r \<and> resolves reg p"
      unfolding keys_resolve_def by blast
  next
    fix q assume "q \<in> dom (algorithmStats (metrics ?s1))"
    with m have "q \<in> dom (algorithmStats (metrics s))" by simp
    with reach_suspend.IH show "resolves reg q"
      unfolding keys_resolve_def by blast
  qed
next
  case (reach_resume_value s p env a opts v)
  let ?k = "generateCacheKey p a (dateKey env) (randKey env)"
  show ?case
    unfolding keys_resolve_def
  proof (intro conjI ballI)
    fix k assume "k \<in> fst ` set (cache ((snd (complete cfg env p a opts ?k v s))\<lparr>isLoading := False\<rparr>))"
    with complete_keys [of cfg env p a opts ?k v s]
    have "k \<in> fst ` set (cache s) \<or> k = ?k"
      by auto
    with reach_resume_value.IH reach_resume_value.hyps(2)
    show "\<exists>p a d r. k = generateCacheKey p a d r \<and> resolves reg p"
      unfolding keys_resolve_def by blast
  next
    fix q assume "q \<in> dom (algorithmStats (metrics ((snd (complete cfg env p a opts ?k v s))\<lparr>isLoading := False\<rparr>)))"
    with complete_dom [of cfg env p a opts ?k v s]
    have "q \<in> dom (algorithmStats (metrics s)) \<or> q = p"
      by auto
    with reach_resume_value.IH reach_resume_value.hyps(2) show "resolves reg q"
      unfolding keys_resolve_def by blast
  qed
next
  case (reach_resume_error s env p a e)
  then show ?case
    using catch_block_dom [of cfg env p a e s]
    by (simp add: keys_resolve_def catch_block_cache)
qed

lemma unresolved_key_absent:
  assumes "reachable cfg reg s" and "\<not> resolves reg p"
  shows "map_of (cache s) (generateCacheKey p a d r) = None"
proof (rule ccontr)
  assume "map_of (cache s) (generateCacheKey p a d r) \<noteq> None"
  then have "generateCacheKey p a d r \<in> fst ` set (cache s)"
    by (auto simp: map_of_eq_None_iff)
  with reachable_keys_resolve [OF assms(1)] obtain p' a' d' r' where
    "generateCacheKey p a d r = generateCacheKey p' a' d' r'" "resolves reg p'"
    unfolding keys_resolve_def by blast
  with generateCacheKey_path assms(2) show False by blast
qed

lemma unresolved_no_stats:
  assumes "reachable cfg reg s" and "\<not> resolves reg p"
  shows "algorithmStats (metrics s) p = None"
  using reachable_keys_resolve [OF assms(1)] assms(2) unfolding keys_resolve_def by blast

subsection \<open>Single calls\<close>

lemma served_from_cacheD:
  assumes "served_from_cache cfg env p a opts s"
  shows "\<exists>entry. enableCache cfg \<and> \<not> skipCache opts \<and>
           map_of (cache s) (generateCacheKey p a (dateKey env) (randKey env)) = Some entry \<and>
           dateLookup env < expires entry \<and> truthy (result entry)"
  using assms
  by (auto simp: served_from_cache_def getCachedResult_def split: if_splits option.splits)

text \<open>
  C1, at the input \<open>execute('cryptography.isPrime', [4])\<close> called twice, one second
  apart, with the default configuration and options. The first call stores
  \<open>false\<close>. The second finds the live entry and counts a hit, but the value is not
  truthy, so the executor goes on: the algorithm runs a second time.
\<close>

theorem C1_falsy_result_runs_twice:
  "fst (executeAlgorithm default_config demo_registry (env_at 1000 3) ''cryptography.isPrime''
          [JNum 4] default_options init) = Some (Inr (JBool False)) \<and>
   invocations after_isPrime = 1 \<and>
   served_from_cache default_config (env_at 2000 3) ''cryptography.isPrime'' [JNum 4]
      default_options after_isPrime = False \<and>
   fst (executeAlgorithm default_config demo_registry (env_at 2000 3) ''cryptography.isPrime''
          [JNum 4] default_options after_isPrime) = Some (Inr (JBool False)) \<and>
   invocations (snd (executeAlgorithm default_config demo_registry (env_at 2000 3)
          ''cryptography.isPrime'' [JNum 4] default_options after_isPrime)) = 2 \<and>
   cacheHits (metrics (snd (executeAlgorithm default_config demo_registry (env_at 2000 3)
          ''cryptography.isPrime'' [JNum 4] default_options after_isPrime))) = 1 \<and>
   totalExecutions (metrics (snd (executeAlgorithm default_config demo_registry (env_at 2000 3)
          ''cryptography.isPrime'' [JNum 4] default_options after_isPrime))) = 2"
  by (simp add: exec_defs demo_defs)

text \<open>
  Where the reuse works: a call that executes and returns a truthy value stores it,
  and a second call with the same path and serialisable parameters, inside the
  time to live, is served from the cache without a further call of the algorithm.
\<close>

lemma generateCacheKey_serialisable:
  "stringify (JArr a) = Some j \<Longrightarrow> generateCacheKey p a d r = p @ ''_'' @ j"
  by (simp add: generateCacheKey_def)

lemma fresh_success_cached:
  assumes "fst (executeAlgorithm cfg reg env p a opts s) = Some (Inr v)"
    and "\<not> served_from_cache cfg env p a opts s" and "enableCache cfg"
  shows "map_of (cache (snd (executeAlgorithm cfg reg env p a opts s)))
           (generateCacheKey p a (dateKey env) (randKey env)) =
         Some \<lparr>result = v, timestamp = dateStamp env, expires = dateExpiry env + cacheTTL cfg\<rparr> \<and>
         invocations (snd (executeAlgorithm cfg reg env p a opts s)) = invocations s + 1"
proof -
  let ?k = "generateCacheKey p a (dateKey env) (randKey env)"
  let ?s0 = "s\<lparr>isLoading := True, error := None\<rparr>"
  obtain cr s1 where g: "(if \<not> skipCache opts then getCachedResult cfg (dateLookup env) ?k ?s0
      else (JNull, ?s0)) = (cr, s1)"
    by fastforce
  have i1: "invocations s1 = invocations s"
    using g by (auto simp: getCachedResult_def split: if_splits option.splits)
  have ns: "\<not> (\<not> skipCache opts \<and> truthy cr)"
    using assms(2) g by (auto simp: served_from_cache_def getCachedResult_def split: if_splits option.splits)
  show ?thesis
    using assms(1,3) g ns i1
    by (auto simp: executeAlgorithm_def try_block_def complete_def Let_def
        setCachedResult_def AList.update_conv'
        split: sum.splits behaviour.splits option.splits prod.splits)
qed

lemma truthy_result_served_again:
  assumes "fst (executeAlgorithm cfg reg env1 p a opts1 s) = Some (Inr v)"
    and "\<not> served_from_cache cfg env1 p a opts1 s" and "enableCache cfg"
    and "truthy v" and "stringify (JArr a) \<noteq> None" and "\<not> skipCache opts2"
    and "dateLookup env2 < dateExpiry env1 + cacheTTL cfg"
  shows "served_from_cache cfg env2 p a opts2 (snd (executeAlgorithm cfg reg env1 p a opts1 s)) \<and>
         fst (executeAlgorithm cfg reg env2 p a opts2 (snd (executeAlgorithm cfg reg env1 p a opts1 s)))
           = Some (Inr v) \<and>
         invocations (snd (executeAlgorithm cfg reg env2 p a opts2
            (snd (executeAlgorithm cfg reg env1 p a opts1 s)))) = invocations s + 1"
proof -
  let ?s1 = "snd (executeAlgorithm cfg reg env1 p a opts1 s)"
  from assms(5) obtain j where j: "stringify (JArr a) = Some j" by blast
  have k: "generateCacheKey p a (dateKey env2) (randKey env2) =
           generateCacheKey p a (dateKey env1) (randKey env1)"
    by (simp add: generateCacheKey_serialisable [OF j])
  from fresh_success_cached [OF assms(1-3)]
  have e: "map_of (cache ?s1) (generateCacheKey p a (dateKey env2) (randKey env2)) =
      Some \<lparr>result = v, timestamp = dateStamp env1, expires = dateExpiry env1 + cacheTTL cfg\<rparr>"
    and i: "invocations ?s1 = invocations s + 1"
    by (simp_all add: k)
  have sv: "served_from_cache cfg env2 p a opts2 ?s1"
    using e assms(3,4,6,7) by (simp add: served_from_cache_def getCachedResult_def)
  have "fst (executeAlgorithm cfg reg env2 p a opts2 ?s1) = Some (Inr v) \<and>
        invocations (snd (executeAlgorithm cfg reg env2 p a opts2 ?s1)) = invocations ?s1"
    using e assms(3,4,6,7)
    by (simp add: executeAlgorithm_def try_block_def getCachedResult_def updateMetrics_def Let_def)
  with sv i show ?thesis by simp
qed

text \<open>
  C2, as the code has it. A call is served from the cache when the cache is enabled,
  \<open>skipCache\<close> is false, and the key of the call has an unexpired entry whose stored
  value is truthy. Such a call returns the stored value, counts one hit, and
  changes nothing else of the bookkeeping. The history is left as it was (no
  record is appended), the execution count and the average are untouched, the
  cache is untouched, and the algorithm is not called. An unexpired entry whose
  stored value is falsy counts a hit as well, but the call is not served from it
  (C1).
\<close>

theorem C2_cache_hit:
  assumes "served_from_cache cfg env p a opts s"
  shows "\<exists>entry. map_of (cache s) (generateCacheKey p a (dateKey env) (randKey env)) = Some entry \<and>
           fst (executeAlgorithm cfg reg env p a opts s) = Some (Inr (result entry)) \<and>
           cacheHits (metrics (snd (executeAlgorithm cfg reg env p a opts s))) = cacheHits (metrics s) + 1 \<and>
           cacheMisses (metrics (snd (executeAlgorithm cfg reg env p a opts s))) = cacheMisses (metrics s) \<and>
           totalExecutions (metrics (snd (executeAlgorithm cfg reg env p a opts s))) = totalExecutions (metrics s) \<and>
           averageExecutionTime (metrics (snd (executeAlgorithm cfg reg env p a opts s))) = averageExecutionTime (metrics s) \<and>
           executionHistory (snd (executeAlgorithm cfg reg env p a opts s)) = executionHistory s \<and>
           cache (snd (executeAlgorithm cfg reg env p a opts s)) = cache s \<and>
           invocations (snd (executeAlgorithm cfg reg env p a opts s)) = invocations s"
proof -
  from served_from_cacheD [OF assms] obtain entry where
    "enableCache cfg" "\<not> skipCache opts"
    "map_of (cache s) (generateCacheKey p a (dateKey env) (randKey env)) = Some entry"
    "dateLookup env < expires entry" "truthy (result entry)"
    by blast
  then show ?thesis
    by (simp add: executeAlgorithm_def try_block_def getCachedResult_def updateMetrics_def Let_def)
qed

theorem C2_cache_hit_witness:
  "served_from_cache default_config (env_at 2000 3) ''cryptography.gcd'' [JNum 4, JNum 6]
     default_options after_gcd \<and>
   cacheHits (metrics (snd (executeAlgorithm default_config demo_registry (env_at 2000 3)
     ''cryptography.gcd'' [JNum 4, JNum 6] default_options after_gcd))) = 1 \<and>
   invocations (snd (executeAlgorithm default_config demo_registry (env_at 2000 3)
     ''cryptography.gcd'' [JNum 4, JNum 6] default_options after_gcd)) = 1"
proof -
  have h: "served_from_cache default_config (env_at 2000 3) ''cryptography.gcd'' [JNum 4, JNum 6]
     default_options after_gcd"
    by (simp add: exec_defs demo_defs)
  have c: "cacheHits (metrics after_gcd) = 0" "invocations after_gcd = 1"
    by (simp_all add: exec_defs demo_defs)
  from C2_cache_hit [OF h, of demo_registry] show ?thesis
    using h c by auto
qed

text \<open>
  The second call of \<open>execute('cryptography.gcd', [4, 6])\<close> is served from the cache,
  and the history still holds the one record of the first call, whose execution
  time is 3: no record with execution time 0 has been appended.
\<close>

theorem C2_no_history_on_hit:
  "served_from_cache default_config (env_at 2000 3) ''cryptography.gcd'' [JNum 4, JNum 6]
     default_options after_gcd \<and>
   fst (executeAlgorithm default_config demo_registry (env_at 2000 3)
     ''cryptography.gcd'' [JNum 4, JNum 6] default_options after_gcd) = Some (Inr (JNum 2)) \<and>
   executionHistory (snd (executeAlgorithm default_config demo_registry (env_at 2000 3)
     ''cryptography.gcd'' [JNum 4, JNum 6] default_options after_gcd)) =
     [\<lparr>h_algorithm = ''cryptography.gcd'', h_params = 2, h_executionTime = 3,
       h_timestamp = 1000, h_success = True, h_error = None\<rparr>]"
  by (simp add: exec_defs demo_defs)

text \<open>
  C3, as the code has it: when the resolved function throws an error with message
  \<open>m\<close>, the call raises that error, records it as the current error, and appends a
  failure record carrying \<open>m\<close>. The error counter of the path goes up by one only
  if metrics are enabled and the path already has a statistics entry; a path
  without one gets none, and no counter changes.
\<close>

theorem C3_thrown_error:
  assumes "resolve reg p = Inr f" and "f a = Throws m"
    and "\<not> served_from_cache cfg env p a opts s"
  shows "fst (executeAlgorithm cfg reg env p a opts s) = Some (Inl (Thrown m)) \<and>
         message (Thrown m) = m \<and>
         error (snd (executeAlgorithm cfg reg env p a opts s)) = Some (Thrown m) \<and>
         executionHistory (snd (executeAlgorithm cfg reg env p a opts s)) =
           push_history \<lparr>h_algorithm = p, h_params = length a,
              h_executionTime = perfCatch env - perfStart env, h_timestamp = dateFailure env,
              h_success = False, h_error = Some m\<rparr> (executionHistory s) \<and>
         algorithmStats (metrics (snd (executeAlgorithm cfg reg env p a opts s))) =
           (case algorithmStats (metrics s) p of
              Some st \<Rightarrow> if enableMetrics cfg
                         then (algorithmStats (metrics s))(p \<mapsto> st\<lparr>errors := errors st + 1\<rparr>)
                         else algorithmStats (metrics s)
            | None \<Rightarrow> algorithmStats (metrics s))"
  using assms
  by (auto simp: executeAlgorithm_def try_block_def getCachedResult_def catch_block_def
      served_from_cache_def Let_def split: option.splits if_splits prod.splits)

theorem C3_thrown_error_witness:
  "resolve demo_registry ''cryptography.modularInverse'' =
     Inr (\<lambda>ps. if ps = [JNum 3, JNum 7] then Returns (JNum 5) else Throws ''domain message'') \<and>
   \<not> served_from_cache default_config (env_at 2000 3) ''cryptography.modularInverse''
       [JNum 2, JNum 4] default_options after_inverse \<and>
   fst (executeAlgorithm default_config demo_registry (env_at 2000 3)
     ''cryptography.modularInverse'' [JNum 2, JNum 4] default_options after_inverse) =
     Some (Inl (Thrown ''domain message'')) \<and>
   map_option errors (algorithmStats (metrics (snd (executeAlgorithm default_config demo_registry
     (env_at 2000 3) ''cryptography.modularInverse'' [JNum 2, JNum 4] default_options
     after_inverse))) ''cryptography.modularInverse'') = Some 1"
proof -
  let ?f = "\<lambda>ps. if ps = [JNum 3, JNum 7] then Returns (JNum 5) else Throws ''domain message''"
  have r: "resolve demo_registry ''cryptography.modularInverse'' = Inr ?f"
    by (simp add: resolve_def demo_registry_def)
  have t: "?f [JNum 2, JNum 4] = Throws ''domain message''"
    by simp
  have n: "\<not> served_from_cache default_config (env_at 2000 3) ''cryptography.modularInverse''
       [JNum 2, JNum 4] default_options after_inverse"
    by (simp add: exec_defs demo_defs)
  have st: "map_option errors (algorithmStats (metrics after_inverse) ''cryptography.modularInverse'') = Some 0"
    "enableMetrics default_config"
    by (simp_all add: exec_defs demo_defs)
  from C3_thrown_error [OF r t n] show ?thesis
    using r n st by (auto split: option.splits)
qed

text \<open>
  \<open>execute('cryptography.modularInverse', [2, 4])\<close> as the first call of a session: the
  function throws, the error comes back unchanged, and the path has no statistics
  entry afterwards, so no error has been counted for it.
\<close>

theorem C3_first_failure_not_counted:
  "fst (executeAlgorithm default_config demo_registry (env_at 1000 3)
     ''cryptography.modularInverse'' [JNum 2, JNum 4] default_options init) =
     Some (Inl (Thrown ''domain message'')) \<and>
   algorithmStats (metrics (snd (executeAlgorithm default_config demo_registry (env_at 1000 3)
     ''cryptography.modularInverse'' [JNum 2, JNum 4] default_options init)))
     ''cryptography.modularInverse'' = None"
  by (simp add: exec_defs demo_defs)

text \<open>
  In every reachable state, a call whose path the lookup of the executor does not
  resolve (no such property of \<open>algorithmMap\<close>, own or inherited; missing or unknown
  method; a member that is not a function) fails with the error of the lookup,
  \<open>CategoryNotFound\<close> or \<open>AlgorithmNotFound\<close>. The cache is left exactly as it was, the
  per-algorithm statistics, error counters included, are left exactly as they
  were, and no algorithm is called.
\<close>

lemma unresolved_path_fails:
  assumes "reachable cfg reg s" and "\<not> resolves reg p"
  shows "(fst (executeAlgorithm cfg reg env p a opts s) = Some (Inl (CategoryNotFound (hd (split_dot p)))) \<or>
          fst (executeAlgorithm cfg reg env p a opts s) = Some (Inl (AlgorithmNotFound p))) \<and>
         cache (snd (executeAlgorithm cfg reg env p a opts s)) = cache s \<and>
         algorithmStats (metrics (snd (executeAlgorithm cfg reg env p a opts s))) =
           algorithmStats (metrics s) \<and>
         invocations (snd (executeAlgorithm cfg reg env p a opts s)) = invocations s"
proof -
  have k: "map_of (cache s) (generateCacheKey p a (dateKey env) (randKey env)) = None"
    by (rule unresolved_key_absent [OF assms])
  have st: "algorithmStats (metrics s) p = None"
    by (rule unresolved_no_stats [OF assms])
  from assms(2) obtain e where r: "resolve reg p = Inl e"
    and e: "e = CategoryNotFound (hd (split_dot p)) \<or> e = AlgorithmNotFound p"
    by (auto simp: resolves_def resolve_def Let_def split: sum.splits option.splits member.splits if_splits)
  show ?thesis using k st r e
    by (auto simp: executeAlgorithm_def try_block_def getCachedResult_def catch_block_def Let_def)
qed

lemma reachable_after_gcd: "reachable default_config demo_registry after_gcd"
  unfolding after_gcd_def by (rule reach_execute [OF reach_init])

lemma unresolved_path_fails_example:
  "reachable default_config demo_registry after_gcd \<and>
   \<not> resolves demo_registry ''nonexistent.thing'' \<and>
   fst (executeAlgorithm default_config demo_registry (env_at 2000 3) ''nonexistent.thing'' []
          default_options after_gcd) = Some (Inl (CategoryNotFound ''nonexistent'')) \<and>
   cache (snd (executeAlgorithm default_config demo_registry (env_at 2000 3) ''nonexistent.thing'' []
          default_options after_gcd)) = cache after_gcd \<and>
   algorithmStats (metrics (snd (executeAlgorithm default_config demo_registry (env_at 2000 3)
          ''nonexistent.thing'' [] default_options after_gcd))) = algorithmStats (metrics after_gcd)"
proof -
  have n: "\<not> resolves demo_registry ''nonexistent.thing''"
    by (simp add: resolves_def resolve_def demo_registry_def)
  have r: "fst (executeAlgorithm default_config demo_registry (env_at 2000 3) ''nonexistent.thing'' []
          default_options after_gcd) = Some (Inl (CategoryNotFound ''nonexistent''))"
    by (simp add: exec_defs demo_defs)
  from unresolved_path_fails [OF reachable_after_gcd n, of "env_at 2000 3" "[]" default_options]
  show ?thesis using reachable_after_gcd n r by simp
qed

text \<open>
  C4, at the input \<open>execute('constructor', [])\<close> on a fresh hook with the default
  configuration and options. No algorithm has that name, but \<open>algorithmMap\<close> is an
  object literal and \<open>algorithmMap['constructor']\<close> is the inherited function \<open>Object\<close>:
  the lookup accepts it, the executor calls it, the call succeeds with a new empty
  object, and that object is written to the cache under the key \<open>constructor_[]\<close>.
\<close>

theorem C4_inherited_name_is_executed:
  "fst (executeAlgorithm default_config demo_registry (env_at 1000 3) ''constructor'' []
          default_options init) = Some (Inr JObj) \<and>
   cache (snd (executeAlgorithm default_config demo_registry (env_at 1000 3) ''constructor'' []
          default_options init)) =
     [(''constructor_[]'',
       \<lparr>result = JObj, timestamp = 1000, expires = 1000 + cacheTTL default_config\<rparr>)] \<and>
   invocations (snd (executeAlgorithm default_config demo_registry (env_at 1000 3) ''constructor'' []
          default_options init)) = 1 \<and>
   error (snd (executeAlgorithm default_config demo_registry (env_at 1000 3) ''constructor'' []
          default_options init)) = None"
  by (simp add: exec_defs demo_defs)

text \<open>
  C5, at the input \<open>execute('cryptography.gcd', [4, 6], {skipCache: true})\<close> followed by
  \<open>getMetrics()\<close>: one execution has been counted, no hit and no miss, and the guard
  of the ratio tests the execution count. The ratio is \<open>0 / 0\<close>.
\<close>

theorem C5_ratio_NaN_without_lookups:
  "v_totalExecutions (fst (getMetrics 2000 after_uncached_gcd)) = 1 \<and>
   v_cacheHits (fst (getMetrics 2000 after_uncached_gcd)) = 0 \<and>
   v_cacheMisses (fst (getMetrics 2000 after_uncached_gcd)) = 0 \<and>
   cacheHitRatio (fst (getMetrics 2000 after_uncached_gcd)) = NaN"
  by (simp add: exec_defs demo_defs getMetrics_def cleanExpiredCache_def js_div_def)

text \<open>
  The same ratio arises from \<open>execute('cryptography.gcd', [4, 6])\<close>, \<open>clearCache()\<close>,
  \<open>getMetrics()\<close>: clearing the cache zeroes the hit and miss counters and keeps the
  execution count.
\<close>

lemma ratio_NaN_after_clearCache:
  "v_totalExecutions (fst (getMetrics 2000 (clearCache after_gcd))) = 1 \<and>
   cacheHitRatio (fst (getMetrics 2000 (clearCache after_gcd))) = NaN"
  by (simp add: exec_defs demo_defs getMetrics_def cleanExpiredCache_def js_div_def clearCache_def)

text \<open>
  C6, at \<open>maxCacheSize = 3\<close> and four puts of distinct keys: the store is full at the
  fourth put, \<open>Math.floor(3 * 0.3)\<close> is 0, nothing is evicted, and the store holds
  four entries.
\<close>

theorem C6_small_limit_exceeded:
  "maxCacheSize tiny_config = 3 \<and>
   length (cache (put_at ''c'' 3 (put_at ''b'' 2 (put_at ''a'' 1 init)))) = 3 \<and>
   evict 3 (cache (put_at ''c'' 3 (put_at ''b'' 2 (put_at ''a'' 1 init)))) =
     cache (put_at ''c'' 3 (put_at ''b'' 2 (put_at ''a'' 1 init))) \<and>
   length (cache (put_at ''d'' 4 (put_at ''c'' 3 (put_at ''b'' 2 (put_at ''a'' 1 init))))) = 4"
  by (simp add: exec_defs demo_defs)

text \<open>
  The same through the executor: with \<open>maxCacheSize = 3\<close>, four calls with
  different parameters leave four entries in the cache.
\<close>

lemma four_executions_exceed_small_limit:
  "map fst (cache (run tiny_config demo_registry [gcd_of 2, gcd_of 4, gcd_of 8, gcd_of 10] init)) =
     [''cryptography.gcd_[2,6]'', ''cryptography.gcd_[4,6]'', ''cryptography.gcd_[8,6]'',
      ''cryptography.gcd_[10,6]'']"
  by (simp add: gcd_of_def run_defs exec_defs demo_defs)

text \<open>
  Where the limit holds: with \<open>maxCacheSize\<close> of 4 or more the eviction removes at
  least one entry from a full store, so a store within the limit stays within it.
\<close>

lemma length_delete_le: "length (AList.delete k c) \<le> length c"
  by (simp add: AList.delete_eq)

lemma length_delete_present: "k \<in> fst ` set c \<Longrightarrow> length (AList.delete k c) < length c"
proof (induction c)
  case Nil
  then show ?case by simp
next
  case (Cons x c)
  show ?case
  proof (cases "fst x = k")
    case True
    have "length (AList.delete k c) \<le> length c" by (rule length_delete_le)
    with True show ?thesis by (cases x) auto
  next
    case False
    with Cons show ?thesis by (cases x) auto
  qed
qed

lemma length_foldl_delete_le:
  "length (foldl (\<lambda>acc e. AList.delete (fst e) acc) c xs) \<le> length c"
proof (induction xs arbitrary: c)
  case Nil
  show ?case by simp
next
  case (Cons x xs)
  have "length (foldl (\<lambda>acc e. AList.delete (fst e) acc) (AList.delete (fst x) c) xs)
          \<le> length (AList.delete (fst x) c)"
    by (rule Cons.IH)
  with length_delete_le [of "fst x" c] show ?case by simp
qed

lemma evict_shrinks:
  assumes "4 \<le> n" and "c \<noteq> []"
  shows "length (evict n c) < length c"
proof -
  let ?es = "sort_key (\<lambda>e. timestamp (snd e)) c"
  from assms(2) have "?es \<noteq> []"
    by (metis length_0_conv length_sort)
  then obtain x xs where es: "?es = x # xs" by (cases ?es) auto
  then have "x \<in> set ?es" by simp
  then have x: "fst x \<in> fst ` set c" by simp
  from assms(1) have "3 * n div 10 \<noteq> 0" by simp
  then obtain k where k: "3 * n div 10 = Suc k" by (cases "3 * n div 10") auto
  have "length (foldl (\<lambda>acc e. AList.delete (fst e) acc) (AList.delete (fst x) c) (take k xs))
          \<le> length (AList.delete (fst x) c)"
    by (rule length_foldl_delete_le)
  with length_delete_present [OF x] show ?thesis
    by (simp add: evict_def es k)
qed

lemma length_update_le: "length (AList.update k v c) \<le> Suc (length c)"
  by (induction c) auto

lemma setCachedResult_keeps_bound:
  assumes "4 \<le> maxCacheSize cfg" and "length (cache s) \<le> maxCacheSize cfg"
  shows "length (cache (setCachedResult cfg t1 t2 k v s)) \<le> maxCacheSize cfg"
proof (cases "enableCache cfg")
  case False
  with assms(2) show ?thesis by (simp add: setCachedResult_def)
next
  case True
  let ?e = "\<lparr>result = v, timestamp = t1, expires = t2 + cacheTTL cfg\<rparr>"
  show ?thesis
  proof (cases "maxCacheSize cfg \<le> length (cache s)")
    case full: True
    with assms(1) have "cache s \<noteq> []" by auto
    from evict_shrinks [OF assms(1) this] assms(2)
    have "Suc (length (evict (maxCacheSize cfg) (cache s))) \<le> maxCacheSize cfg" by simp
    with length_update_le [of k ?e "evict (maxCacheSize cfg) (cache s)"] True full
    show ?thesis by (simp add: setCachedResult_def)
  next
    case False
    with length_update_le [of k ?e "cache s"] True show ?thesis
      by (simp add: setCachedResult_def)
  qed
qed

text \<open>
  The race against the timer, for a function that hands back a promise: when the
  promise never settles, or settles at the deadline or later, the call fails with
  the timeout error, writes no entry to the cache (the check at the head may have
  dropped a stale one), and appends a failure record. When it settles before the
  deadline with a rejection, the call fails with that rejection instead.
\<close>

lemma pending_promise_times_out:
  assumes "resolve reg p = Inr f" and "f a = Promise d r"
    and "d = None \<or> (\<exists>t. d = Some t \<and> timeout opts \<le> t)"
    and "\<not> served_from_cache cfg env p a opts s"
  shows "fst (executeAlgorithm cfg reg env p a opts s) = Some (Inl TimeoutError) \<and>
         (cache (snd (executeAlgorithm cfg reg env p a opts s)) = cache s \<or>
          cache (snd (executeAlgorithm cfg reg env p a opts s)) =
            AList.delete (generateCacheKey p a (dateKey env) (randKey env)) (cache s)) \<and>
         executionHistory (snd (executeAlgorithm cfg reg env p a opts s)) =
           push_history \<lparr>h_algorithm = p, h_params = length a,
              h_executionTime = perfCatch env - perfStart env, h_timestamp = dateFailure env,
              h_success = False, h_error = Some (message TimeoutError)\<rparr> (executionHistory s)"
proof -
  from assms(3) have "race (timeout opts) d r = Inl TimeoutError"
    by (auto simp: race_def)
  with assms(1,2,4) show ?thesis
    by (auto simp: executeAlgorithm_def try_block_def getCachedResult_def catch_block_def
        served_from_cache_def Let_def simp del: message.simps
        split: option.splits if_splits prod.splits)
qed

lemma early_rejection_wins:
  assumes "resolve reg p = Inr f" and "f a = Promise (Some t) (Inl m)" and "t < timeout opts"
    and "\<not> served_from_cache cfg env p a opts s"
  shows "fst (executeAlgorithm cfg reg env p a opts s) = Some (Inl (Thrown m))"
proof -
  from assms(3) have "race (timeout opts) (Some t) (Inl m) = Inl (Thrown m)"
    by (simp add: race_def)
  with assms(1,2,4) show ?thesis
    by (auto simp: executeAlgorithm_def try_block_def getCachedResult_def catch_block_def
        served_from_cache_def Let_def split: option.splits if_splits prod.splits)
qed

text \<open>
  A function that does not return keeps the executor inside the call
  \<open>algorithm(...params)\<close>, which comes before \<open>Promise.race\<close>: whatever the timeout, the
  call of \<open>execute\<close> never comes to an end. The loading flag stays set, no error is
  recorded, and no record is appended to the history.
\<close>

lemma diverging_call_never_returns:
  assumes "resolve reg p = Inr f" and "f a = Diverges"
    and "\<not> served_from_cache cfg env p a opts s"
  shows "fst (executeAlgorithm cfg reg env p a opts s) = None \<and>
         isLoading (snd (executeAlgorithm cfg reg env p a opts s)) \<and>
         error (snd (executeAlgorithm cfg reg env p a opts s)) = None \<and>
         executionHistory (snd (executeAlgorithm cfg reg env p a opts s)) = executionHistory s \<and>
         invocations (snd (executeAlgorithm cfg reg env p a opts s)) = invocations s + 1"
  using assms
  by (auto simp: executeAlgorithm_def try_block_def getCachedResult_def
        served_from_cache_def Let_def split: option.splits if_splits prod.splits)

text \<open>
  C9, at the input \<open>execute('cryptography.gcd', [4], {timeout: 10})\<close> on a fresh hook
  with the default configuration. The second operand of \<open>gcd\<close> is missing, its loop
  does not end, and the algorithm never settles. The executor calls it
  synchronously before it starts the race, so the timer cannot fire: the call of
  \<open>execute\<close> does not fail with the timeout error, it never ends at all. The
  loading flag stays set, no error is recorded and the history stays empty.
\<close>

theorem C9_synchronous_call_never_times_out:
  "fst (executeAlgorithm default_config demo_registry (env_at 1000 3) ''cryptography.gcd''
          [JNum 4] (default_options\<lparr>timeout := 10\<rparr>) init) = None \<and>
   isLoading (snd (executeAlgorithm default_config demo_registry (env_at 1000 3)
          ''cryptography.gcd'' [JNum 4] (default_options\<lparr>timeout := 10\<rparr>) init)) \<and>
   error (snd (executeAlgorithm default_config demo_registry (env_at 1000 3)
          ''cryptography.gcd'' [JNum 4] (default_options\<lparr>timeout := 10\<rparr>) init)) = None \<and>
   executionHistory (snd (executeAlgorithm default_config demo_registry (env_at 1000 3)
          ''cryptography.gcd'' [JNum 4] (default_options\<lparr>timeout := 10\<rparr>) init)) = [] \<and>
   invocations (snd (executeAlgorithm default_config demo_registry (env_at 1000 3)
          ''cryptography.gcd'' [JNum 4] (default_options\<lparr>timeout := 10\<rparr>) init)) = 1"
  by (simp add: exec_defs demo_defs)

text \<open>
  C10: in every reachable state, with the cache enabled and \<open>skipCache\<close> false, a call
  whose path the lookup of the executor does not resolve to a function fails, and
  the miss counter has gone up by exactly one while the hit counter is unchanged:
  the failed lookup was counted as a miss. A path that names an inherited
  function, such as \<open>constructor\<close>, is resolved by that lookup and is no such call.
\<close>

theorem C10_failed_lookup_counts_miss:
  assumes "reachable cfg reg s" and "\<not> resolves reg p"
    and "enableCache cfg" and "\<not> skipCache opts"
  shows "(\<exists>e. fst (executeAlgorithm cfg reg env p a opts s) = Some (Inl e)) \<and>
         cacheMisses (metrics (snd (executeAlgorithm cfg reg env p a opts s))) =
           cacheMisses (metrics s) + 1 \<and>
         cacheHits (metrics (snd (executeAlgorithm cfg reg env p a opts s))) =
           cacheHits (metrics s)"
proof -
  have k: "map_of (cache s) (generateCacheKey p a (dateKey env) (randKey env)) = None"
    by (rule unresolved_key_absent [OF assms(1,2)])
  from assms(2) obtain e where r: "resolve reg p = Inl e"
    by (auto simp: resolves_def split: sum.splits)
  show ?thesis using k r assms(3,4)
    by (auto simp: executeAlgorithm_def try_block_def getCachedResult_def catch_block_def Let_def
        split: option.splits)
qed

theorem C10_failed_lookup_counts_miss_witness:
  "reachable default_config demo_registry after_gcd \<and>
   \<not> resolves demo_registry ''cryptography.rsa.generateKeys'' \<and>
   enableCache default_config \<and> \<not> skipCache default_options \<and>
   cacheMisses (metrics after_gcd) = 1 \<and>
   cacheMisses (metrics (snd (executeAlgorithm default_config demo_registry (env_at 2000 3)
      ''cryptography.rsa.generateKeys'' [JNum 61, JNum 53, JNum 17] default_options after_gcd))) = 2"
proof -
  have n: "\<not> resolves demo_registry ''cryptography.rsa.generateKeys''"
    by (simp add: resolves_def resolve_def demo_registry_def)
  have c: "enableCache default_config" "\<not> skipCache default_options"
    by (simp_all add: default_config_def default_options_def)
  have m: "cacheMisses (metrics after_gcd) = 1"
    by (simp add: exec_defs demo_defs)
  from C10_failed_lookup_counts_miss [OF reachable_after_gcd n c, of "env_at 2000 3"
      "[JNum 61, JNum 53, JNum 17]"]
  show ?thesis using reachable_after_gcd n c m by simp
qed

subsection \<open>Runs\<close>

lemma getCachedResult_metrics_avg:
  "totalExecutions (metrics (snd (getCachedResult cfg now k s))) = totalExecutions (metrics s) \<and>
   averageExecutionTime (metrics (snd (getCachedResult cfg now k s))) = averageExecutionTime (metrics s) \<and>
   executionHistory (snd (getCachedResult cfg now k s)) = executionHistory s"
  by (auto simp: getCachedResult_def split: option.splits)

lemma setCachedResult_history: "executionHistory (setCachedResult cfg t1 t2 k v s) = executionHistory s"
  by (simp add: setCachedResult_def Let_def)


lemma served_metrics:
  assumes "served_from_cache cfg env p a opts s"
  shows "totalExecutions (metrics (snd (executeAlgorithm cfg reg env p a opts s))) = totalExecutions (metrics s) \<and>
         averageExecutionTime (metrics (snd (executeAlgorithm cfg reg env p a opts s))) = averageExecutionTime (metrics s) \<and>
         executionHistory (snd (executeAlgorithm cfg reg env p a opts s)) = executionHistory s"
proof -
  from served_from_cacheD [OF assms] obtain entry where
    "enableCache cfg" "\<not> skipCache opts"
    "map_of (cache s) (generateCacheKey p a (dateKey env) (randKey env)) = Some entry"
    "dateLookup env < expires entry" "truthy (result entry)"
    by blast
  then show ?thesis
    by (simp add: executeAlgorithm_def try_block_def getCachedResult_def updateMetrics_def Let_def)
qed








lemma attempt_history:
  assumes "\<not> call_served cfg c s" and "fst (execute_call cfg reg c s) = Some r"
  shows "executionHistory (snd (execute_call cfg reg c s)) =
           push_history (record_of c r) (executionHistory s)"
proof -
  let ?env = "c_env c" and ?p = "c_path c" and ?a = "c_params c" and ?opts = "c_opts c"
  let ?k = "generateCacheKey ?p ?a (dateKey ?env) (randKey ?env)"
  let ?s0 = "s\<lparr>isLoading := True, error := None\<rparr>"
  obtain cr s1 where g: "(if \<not> skipCache ?opts then getCachedResult cfg (dateLookup ?env) ?k ?s0
      else (JNull, ?s0)) = (cr, s1)"
    by fastforce
  have h1: "executionHistory s1 = executionHistory s"
    using g getCachedResult_metrics_avg [of cfg "dateLookup ?env" ?k ?s0]
    by (auto split: if_splits)
  have ns: "\<not> (\<not> skipCache ?opts \<and> truthy cr)"
    using assms(1) g
    by (auto simp: call_served_def served_from_cache_def getCachedResult_def split: if_splits option.splits)
  show ?thesis
    using g ns h1 assms(2)
    by (auto simp: execute_call_def executeAlgorithm_def try_block_def complete_def catch_block_def
        record_of_def Let_def setCachedResult_history
        split: sum.splits behaviour.splits option.splits prod.splits)
qed

lemma hanging_call_history:
  assumes "fst (execute_call cfg reg c s) = None"
  shows "executionHistory (snd (execute_call cfg reg c s)) = executionHistory s"
proof -
  let ?env = "c_env c" and ?p = "c_path c" and ?a = "c_params c" and ?opts = "c_opts c"
  let ?k = "generateCacheKey ?p ?a (dateKey ?env) (randKey ?env)"
  let ?s0 = "s\<lparr>isLoading := True, error := None\<rparr>"
  obtain cr s1 where g: "(if \<not> skipCache ?opts then getCachedResult cfg (dateLookup ?env) ?k ?s0
      else (JNull, ?s0)) = (cr, s1)"
    by fastforce
  have h1: "executionHistory s1 = executionHistory s"
    using g getCachedResult_metrics_avg [of cfg "dateLookup ?env" ?k ?s0]
    by (auto split: if_splits)
  show ?thesis
    using g h1 assms
    by (auto simp: execute_call_def executeAlgorithm_def try_block_def Let_def
        split: sum.splits behaviour.splits option.splits prod.splits if_splits)
qed

lemma served_history:
  assumes "call_served cfg c s"
  shows "executionHistory (snd (execute_call cfg reg c s)) = executionHistory s"
  using served_metrics [of cfg "c_env c" "c_path c" "c_params c" "c_opts c" s reg] assms
  by (simp add: call_served_def execute_call_def)

lemma push_slice_last:
  "push_history r (slice_last 20 xs) = slice_last 20 (xs @ [r])"
proof (cases "length xs \<le> 19")
  case True
  then show ?thesis by (simp add: push_history_def slice_last_def)
next
  case False
  then have "length xs - 20 + 1 = length xs - 19" "Suc (length xs) - 20 = length xs - 19"
    by arith+
  with False show ?thesis
    by (simp add: push_history_def slice_last_def)
qed

lemma run_history:
  assumes "executionHistory s = slice_last 20 past"
  shows "executionHistory (run cfg reg cs s) = slice_last 20 (past @ attempt_records cfg reg cs s)"
  using assms
proof (induction cs arbitrary: s past)
  case Nil
  then show ?case by simp
next
  case (Cons c cs)
  let ?s' = "snd (execute_call cfg reg c s)"
  show ?case
  proof (cases "fst (execute_call cfg reg c s)")
    case None
    then have "executionHistory ?s' = slice_last 20 past"
      using Cons.prems by (simp add: hanging_call_history)
    with None show ?thesis by (simp add: returns_def)
  next
    case (Some r)
    show ?thesis
    proof (cases "call_served cfg c s")
      case True
      then have "executionHistory ?s' = slice_last 20 past"
        using Cons.prems by (simp add: served_history)
      from Cons.IH [OF this] True Some show ?thesis by (simp add: returns_def)
    next
      case False
      have "executionHistory ?s' = slice_last 20 (past @ [record_of c r])"
        using attempt_history [OF False Some] Cons.prems by (simp add: push_slice_last)
      from Cons.IH [OF this] False Some show ?thesis by (simp add: returns_def)
    qed
  qed
qed

lemma attempts_records_length:
  "attempts cfg reg cs s \<Longrightarrow> length (attempt_records cfg reg cs s) = length cs"
  by (induction cs arbitrary: s) (auto simp: returns_def)

text \<open>
  C8, as the code has it: after any run from the initial state the history is the
  last 20 of the records written by the calls of the run, in the order of the
  calls, the latest last; so it holds at most 20 records. When none of 25 calls is
  served from the cache, so that every call ends on the success or on the failure
  path and writes its record, the history holds exactly 20 records, those of the
  calls 6 to 25.
\<close>

theorem C8_history_window:
  "executionHistory (run cfg reg cs init) = slice_last 20 (attempt_records cfg reg cs init) \<and>
   length (executionHistory (run cfg reg cs init)) \<le> 20 \<and>
   (attempts cfg reg cs init \<and> length cs = 25 \<longrightarrow>
      length (executionHistory (run cfg reg cs init)) = 20 \<and>
      executionHistory (run cfg reg cs init) = drop 5 (attempt_records cfg reg cs init))"
proof -
  have i: "executionHistory init = slice_last 20 []"
    by (simp add: init_def slice_last_def)
  have w: "executionHistory (run cfg reg cs init) = slice_last 20 (attempt_records cfg reg cs init)"
    using run_history [OF i, of cfg reg cs] by simp
  show ?thesis
    using w attempts_records_length [of cfg reg cs init]
    by (auto simp: slice_last_def)
qed

lemma call_returns:
  assumes "\<And>f. resolve reg (c_path c) = Inr f \<Longrightarrow> f (c_params c) \<noteq> Diverges"
  shows "returns cfg reg c s"
proof -
  let ?env = "c_env c" and ?p = "c_path c" and ?a = "c_params c" and ?opts = "c_opts c"
  let ?k = "generateCacheKey ?p ?a (dateKey ?env) (randKey ?env)"
  let ?s0 = "s\<lparr>isLoading := True, error := None\<rparr>"
  obtain cr s1 where g: "(if \<not> skipCache ?opts then getCachedResult cfg (dateLookup ?env) ?k ?s0
      else (JNull, ?s0)) = (cr, s1)"
    by fastforce
  show ?thesis
    using g assms
    by (auto simp: returns_def execute_call_def executeAlgorithm_def try_block_def Let_def
        split: sum.splits behaviour.splits option.splits prod.splits if_splits)
qed

lemma skipCache_attempts:
  "list_all (\<lambda>c. skipCache (c_opts c) \<and>
       (\<forall>f. resolve reg (c_path c) = Inr f \<longrightarrow> f (c_params c) \<noteq> Diverges)) cs
   \<Longrightarrow> attempts cfg reg cs s"
  by (induction cs arbitrary: s) (simp_all add: call_served_def served_from_cache_def call_returns)

lemma length_demo_calls: "length (demo_calls n) = n"
  by (induction n) simp_all

lemma skip_demo_calls:
  "list_all (\<lambda>c. skipCache (c_opts c) \<and>
       (\<forall>f. resolve demo_registry (c_path c) = Inr f \<longrightarrow> f (c_params c) \<noteq> Diverges))
     (demo_calls n)"
  by (induction n)
     (auto simp: demo_call_def default_options_def resolve_def demo_registry_def)

theorem C8_history_window_witness:
  "attempts default_config demo_registry (demo_calls 25) init \<and>
   length (demo_calls 25) = 25 \<and>
   length (executionHistory (run default_config demo_registry (demo_calls 25) init)) = 20 \<and>
   executionHistory (run default_config demo_registry (demo_calls 25) init) =
     drop 5 (attempt_records default_config demo_registry (demo_calls 25) init)"
proof -
  have a: "attempts default_config demo_registry (demo_calls 25) init"
    by (rule skipCache_attempts [OF skip_demo_calls])
  from C8_history_window [of default_config demo_registry "demo_calls 25"]
  show ?thesis using a length_demo_calls [of 25] by blast
qed

lemma served_depends_on_cache:
  "cache s' = cache s \<Longrightarrow>
     served_from_cache cfg env p a opts s' = served_from_cache cfg env p a opts s"
  by (simp add: served_from_cache_def getCachedResult_def split: option.splits)

lemma served_call_cache:
  assumes "call_served cfg c s"
  shows "cache (snd (execute_call cfg reg c s)) = cache s"
proof -
  from assms have "served_from_cache cfg (c_env c) (c_path c) (c_params c) (c_opts c) s"
    by (simp add: call_served_def)
  from served_from_cacheD [OF this] obtain entry where
    "enableCache cfg" "\<not> skipCache (c_opts c)"
    "map_of (cache s) (generateCacheKey (c_path c) (c_params c) (dateKey (c_env c)) (randKey (c_env c))) = Some entry"
    "dateLookup (c_env c) < expires entry" "truthy (result entry)"
    by blast
  then show ?thesis
    by (simp add: execute_call_def executeAlgorithm_def try_block_def getCachedResult_def
        updateMetrics_def Let_def)
qed

lemma served_again_and_again:
  "call_served cfg c s \<Longrightarrow>
     executionHistory (run cfg reg (replicate n c) s) = executionHistory s"
proof (induction n arbitrary: s)
  case 0
  show ?case by simp
next
  case (Suc n)
  let ?s' = "snd (execute_call cfg reg c s)"
  have "cache ?s' = cache s" by (rule served_call_cache [OF Suc.prems])
  then have "call_served cfg c ?s'"
    using Suc.prems served_depends_on_cache [of ?s' s] by (simp add: call_served_def)
  from Suc.IH [OF this] show ?case
    by (simp add: served_history [OF Suc.prems])
qed

text \<open>
  Twenty-five calls of \<open>execute('cryptography.gcd', [4, 6])\<close>: the first executes and
  writes its record, the other twenty-four are served from the cache and write
  none. The history holds one record, not twenty.
\<close>

theorem C8_cached_calls_write_no_record:
  "length (gcd_call 1000 # replicate 24 (gcd_call 2000)) = 25 \<and>
   executionHistory (run default_config demo_registry
      (gcd_call 1000 # replicate 24 (gcd_call 2000)) init) =
     [\<lparr>h_algorithm = ''cryptography.gcd'', h_params = 2, h_executionTime = 3,
       h_timestamp = 1000, h_success = True, h_error = None\<rparr>]"
proof -
  have f: "snd (execute_call default_config demo_registry (gcd_call 1000) init) = after_gcd"
    by (simp add: execute_call_def gcd_call_def after_gcd_def)
  have s: "call_served default_config (gcd_call 2000) after_gcd"
    by (simp add: call_served_def gcd_call_def exec_defs demo_defs)
  have h: "executionHistory after_gcd =
     [\<lparr>h_algorithm = ''cryptography.gcd'', h_params = 2, h_executionTime = 3,
       h_timestamp = 1000, h_success = True, h_error = None\<rparr>]"
    by (simp add: exec_defs demo_defs)
  show ?thesis
    using served_again_and_again [OF s, of demo_registry 24] h by (simp add: f)
qed

text \<open>
  The first three of those calls, run from the initial state: a success, a failed
  lookup, a success, in that order, the latest last.
\<close>


lemma demo_calls_3: "demo_calls 3 = [demo_call 0, demo_call 1, demo_call 2]"
proof -
  have "demo_calls (Suc (Suc (Suc 0))) = [demo_call 0, demo_call (Suc 0), demo_call (Suc (Suc 0))]"
    by simp
  then show ?thesis by (simp add: numeral_3_eq_3 numeral_2_eq_2)
qed

lemma history_after_three_demo_calls:
  "executionHistory (run default_config demo_registry (demo_calls 3) init) =
     [\<lparr>h_algorithm = ''cryptography.gcd'', h_params = 2, h_executionTime = 3,
       h_timestamp = 1000, h_success = True, h_error = None\<rparr>,
      \<lparr>h_algorithm = ''nonexistent.thing'', h_params = 2, h_executionTime = 3,
       h_timestamp = 1001, h_success = False,
       h_error = Some (message (CategoryNotFound ''nonexistent''))\<rparr>,
      \<lparr>h_algorithm = ''cryptography.gcd'', h_params = 2, h_executionTime = 3,
       h_timestamp = 1002, h_success = True, h_error = None\<rparr>]"
  by (simp add: demo_calls_3 demo_call_def run_defs exec_defs demo_defs del: message.simps)

end
